theory Spec2Isabelle
  imports Main
begin

section \<open>JavaScript objects used as dictionaries\<close>

text \<open>
  The component keeps its snapshots in plain objects typed \<open>Record<string, TextStyle>\<close>, and
  the label registry is one more such object.  A plain object is its own enumerable
  properties and its prototype.  The own properties are a list, in the order in which
  JavaScript enumerates them: array-index keys first, in ascending numeric order, then every
  other key in the order of insertion.  The prototype is \<open>Object.prototype\<close> until an
  assignment to the key \<open>__proto__\<close> replaces it.
\<close>

type_synonym 'a Record = "(string \<times> 'a) list"

definition is_digit :: "char \<Rightarrow> bool" where
  "is_digit c = (c \<in> set ''0123456789'')"

definition digit_val :: "char \<Rightarrow> nat" where
  "digit_val c = of_char c - 48"

definition numeric_value :: "string \<Rightarrow> nat" where
  "numeric_value k = fold (\<lambda>c n. 10 * n + digit_val c) k 0"

text \<open>An array index is the canonical decimal string of an integer below \<open>2^32 - 1\<close>.\<close>

definition is_array_index :: "string \<Rightarrow> bool" where
  "is_array_index k =
     (case k of
        [] \<Rightarrow> False
      | c # cs \<Rightarrow> (if c = CHR ''0'' then cs = [] else True)
                 \<and> list_all is_digit k \<and> numeric_value k < 4294967295)"

definition key_precedes :: "string \<Rightarrow> string \<Rightarrow> bool" where
  "key_precedes k k' =
     (is_array_index k \<and> (if is_array_index k' then numeric_value k < numeric_value k' else True))"

fun insert_key :: "string \<Rightarrow> 'a \<Rightarrow> 'a Record \<Rightarrow> 'a Record" where
  "insert_key k v [] = [(k, v)]"
| "insert_key k v ((k', v') # m) =
     (if key_precedes k k' then (k, v) # (k', v') # m else (k', v') # insert_key k v m)"

fun replace_key :: "string \<Rightarrow> 'a \<Rightarrow> 'a Record \<Rightarrow> 'a Record" where
  "replace_key k v [] = []"
| "replace_key k v ((k', v') # m) =
     (if k' = k then (k, v) # m else (k', v') # replace_key k v m)"

text \<open>Defining the own property \<open>k\<close>: an existing property keeps its place, a new one is
  enumerated where JavaScript puts it.\<close>

definition record_set :: "string \<Rightarrow> 'a \<Rightarrow> 'a Record \<Rightarrow> 'a Record" where
  "record_set k v m = (if k \<in> set (map fst m) then replace_key k v m else insert_key k v m)"

text \<open>The own property \<open>k\<close> of an object, \<open>None\<close> when it has none of that name.\<close>

definition record_get :: "'a Record \<Rightarrow> string \<Rightarrow> 'a option" where
  "record_get m k = map_of m k"

text \<open>\<open>delete obj[k]\<close> removes an own property and leaves the prototype alone.\<close>

definition record_delete :: "string \<Rightarrow> 'a Record \<Rightarrow> 'a Record" where
  "record_delete k m = filter (\<lambda>e. fst e \<noteq> k) m"

text \<open>The names under which every object finds a member of \<open>Object.prototype\<close>.  Each of
  them reads as a function, and \<open>__proto__\<close> as the prototype itself.\<close>

definition object_prototype_names :: "string list" where
  "object_prototype_names =
     [''constructor'', ''__defineGetter__'', ''__defineSetter__'', ''hasOwnProperty'',
      ''__lookupGetter__'', ''__lookupSetter__'', ''isPrototypeOf'', ''propertyIsEnumerable'',
      ''toString'', ''valueOf'', ''__proto__'', ''toLocaleString'']"

text \<open>
  What a read \<open>obj[k]\<close> gives, for an object whose own properties hold values of type \<open>'a\<close>:
  such a value (an own property, or the replaced prototype itself under \<open>__proto__\<close>), a member
  \<open>'b\<close> found on the replaced prototype, a member of \<open>Object.prototype\<close>, or \<open>undefined\<close>.
\<close>

datatype ('a, 'b) Looked = Value 'a | Member 'b | Builtin | Undefined

text \<open>
  \<open>obj[k]\<close> for the object with own properties \<open>props\<close> and prototype \<open>proto\<close> (\<open>None\<close> for
  \<open>Object.prototype\<close>, \<open>Some p\<close> for a value \<open>p\<close> that replaced it).  \<open>member p k\<close> is what
  the value \<open>p\<close> holds under \<open>k\<close> short of \<open>Object.prototype\<close>, where the chain of \<open>p\<close> ends.
\<close>

definition obj_get ::
  "('a \<Rightarrow> string \<Rightarrow> 'b option) \<Rightarrow> 'a Record \<Rightarrow> 'a option \<Rightarrow> string \<Rightarrow> ('a, 'b) Looked" where
  "obj_get member props proto k =
     (case record_get props k of
        Some v \<Rightarrow> Value v
      | None \<Rightarrow>
          (if k = ''__proto__'' then (case proto of Some p \<Rightarrow> Value p | None \<Rightarrow> Builtin)
           else case (case proto of Some p \<Rightarrow> member p k | None \<Rightarrow> None) of
                  Some x \<Rightarrow> Member x
                | None \<Rightarrow> (if k \<in> set object_prototype_names then Builtin else Undefined)))"

text \<open>
  \<open>obj[k] = v\<close> for a value \<open>v\<close> that is an object, as every snapshot and every constructor
  is: the key \<open>__proto__\<close> replaces the prototype and creates no own property, any other key
  defines an own property.
\<close>

definition obj_assign :: "string \<Rightarrow> 'a \<Rightarrow> 'a Record \<times> 'a option \<Rightarrow> 'a Record \<times> 'a option" where
  "obj_assign k v obj =
     (if k = ''__proto__'' then (fst obj, Some v) else (record_set k v (fst obj), snd obj))"

section \<open>The label registry\<close>

text \<open>
  \<open>LABEL_CONFIG_MAP\<close> is module state, a plain object: its own properties and its prototype.
  Both functions take it explicitly, and \<open>registerLabelComponent\<close> returns the new registry.
  \<open>static_member c k\<close> is what a constructor \<open>c\<close> holds under the name \<open>k\<close>.
\<close>

definition registerLabelComponent ::
  "string \<Rightarrow> 'ctor \<Rightarrow> 'ctor Record \<times> 'ctor option \<Rightarrow> 'ctor Record \<times> 'ctor option" where
  "registerLabelComponent type component LABEL_CONFIG_MAP = obj_assign type component LABEL_CONFIG_MAP"

definition getLabelComponent ::
  "('ctor \<Rightarrow> string \<Rightarrow> 'x option) \<Rightarrow> 'ctor Record \<times> 'ctor option \<Rightarrow> string
     \<Rightarrow> ('ctor, 'x) Looked" where
  "getLabelComponent static_member LABEL_CONFIG_MAP type =
     obj_get static_member (fst LABEL_CONFIG_MAP) (snd LABEL_CONFIG_MAP) type"

text \<open>The registry after a sequence of registrations, starting from the empty object \<open>{}\<close>.\<close>

definition registered :: "(string \<times> 'ctor) list \<Rightarrow> 'ctor Record \<times> 'ctor option" where
  "registered calls =
     fold (\<lambda>call m. registerLabelComponent (fst call) (snd call) m) calls ([], None)"

section \<open>Values, data items and the geometry\<close>

text \<open>
  The engine never inspects a data value; it only converts it to a string inside a template
  literal.  The value type is therefore a parameter \<open>'v\<close>, and the conversion of a property
  read (\<open>None\<close> when the property is missing, that is \<open>undefined\<close>) is the parameter
  \<open>toStr\<close>.  \<open>JSValue\<close> and \<open>ToString\<close> are the instance used in the examples: strings,
  and the natural numbers a double holds exactly (below \<open>2^53\<close>), which JavaScript prints in
  decimal.
\<close>

datatype JSValue = JSString string | JSNumber nat

fun decimal :: "nat \<Rightarrow> string" where
  "decimal n =
     (if n < 10 then [''0123456789'' ! n] else decimal (n div 10) @ [''0123456789'' ! (n mod 10)])"

declare decimal.simps [simp del]

definition ToString :: "JSValue option \<Rightarrow> string" where
  "ToString v =
     (case v of None \<Rightarrow> ''undefined'' | Some (JSString s) \<Rightarrow> s | Some (JSNumber n) \<Rightarrow> decimal n)"

text \<open>\<open>MappingDatum\<close>: only \<open>_origin\<close>, the original data row, is read.\<close>

record 'v MappingDatum =
  origin :: "'v Record"

datatype 'v MappingData = Single "'v MappingDatum" | Many "'v MappingDatum list"

text \<open>\<open>Element\<close>: \<open>element.getModel().mappingData\<close> is one data item or an array of them.\<close>

record 'v Element =
  mappingData :: "'v MappingData"

text \<open>
  \<open>Geometry\<close>, as far as the component reads it: \<open>elements\<close>, \<open>animateOption\<close> (tested for
  truthiness only), \<open>type\<close>, the fields of \<open>getXScale()\<close> and \<open>getYScale()\<close>, and
  \<open>getElementId\<close>, which belongs to the charting library and is a parameter here.
\<close>

record 'v Geometry =
  elements :: "'v Element list"
  animateOption :: bool
  geom_type :: string
  xScale_field :: string
  yScale_field :: string
  getElementId :: "'v MappingDatum \<Rightarrow> string"

section \<open>The identity resolver\<close>

definition getLabelId :: "('v option \<Rightarrow> string) \<Rightarrow> 'v Geometry \<Rightarrow> 'v MappingDatum \<Rightarrow> string" where
  "getLabelId toStr geometry data =
     (let origin' = origin data;
          type = geom_type geometry;
          xField = xScale_field geometry;
          yField = yScale_field geometry;
          labelId = getElementId geometry data
      in if type = ''line'' \<or> type = ''area'' then
           labelId @ '' '' @ toStr (record_get origin' xField)
         else if type = ''path'' then
           labelId @ '' '' @ toStr (record_get origin' xField) @ ''-'' @ toStr (record_get origin' yField)
         else labelId)"

section \<open>The scene graph and the animation driver\<close>

text \<open>
  Modelled from the spec: the group, its shapes and \<open>doAnimate\<close> belong to the rendering
  library, of which the component uses shape creation with attributes, id and metadata,
  lookup by id, and attribute get and set.  A group is the list of the shapes created in it,
  in creation order, and a shape is addressed by its position, so that the label list and the
  animation calls can refer to a shape that is later changed.  A shape that was removed from
  the group (\<open>has_parent\<close> false) or destroyed is no longer found by id.  The group is
  cleared by the caller before \<open>renderInner\<close> runs; \<open>renderInner\<close> itself takes the group as
  it is given.
\<close>

record 'v IShape =
  shape_type :: string
  cfg_id :: string
  cfg_name :: string
  cfg_origin :: "'v MappingDatum option"
  attrs :: "'v Record"
  has_parent :: bool
  destroyed :: bool

type_synonym 'v IGroup = "'v IShape list"

definition new_shape ::
  "string \<Rightarrow> 'v Record \<Rightarrow> string \<Rightarrow> string \<Rightarrow> 'v MappingDatum option \<Rightarrow> 'v IShape" where
  "new_shape type attrs' id' name' origin' =
     \<lparr>shape_type = type, cfg_id = id', cfg_name = name', cfg_origin = origin',
      attrs = attrs', has_parent = True, destroyed = False\<rparr>"

text \<open>Modelled from the spec: \<open>group.addShape(type, {attrs, id, name, origin})\<close> appends a
  shape with the given attributes, id and metadata to the group and returns it.\<close>

definition addShape ::
  "'v IGroup \<Rightarrow> string \<Rightarrow> 'v Record \<Rightarrow> string \<Rightarrow> string \<Rightarrow> 'v MappingDatum option
     \<Rightarrow> nat \<times> 'v IGroup" where
  "addShape grp type attrs' id' name' origin' =
     (length grp, grp @ [new_shape type attrs' id' name' origin'])"

definition is_live :: "'v IShape \<Rightarrow> bool" where
  "is_live s = (has_parent s \<and> \<not> destroyed s)"

text \<open>Modelled from the spec: \<open>group.findById(id)\<close> is the first live child with that id,
  or nothing.\<close>

definition findById :: "'v IGroup \<Rightarrow> string \<Rightarrow> nat option" where
  "findById grp id' =
     List.find (\<lambda>a. is_live (grp ! a) \<and> cfg_id (grp ! a) = id') [0..<length grp]"

text \<open>Modelled from the spec: \<open>shape.attr(obj)\<close> sets every property of \<open>obj\<close> on the shape
  and keeps the others.\<close>

definition attr_merge :: "'v Record \<Rightarrow> 'v Record \<Rightarrow> 'v Record" where
  "attr_merge obj old = fold (\<lambda>e m. record_set (fst e) (snd e) m) obj old"

definition shape_attr :: "nat \<Rightarrow> 'v Record \<Rightarrow> 'v IGroup \<Rightarrow> 'v IGroup" where
  "shape_attr shape' obj grp =
     grp[shape' := (grp ! shape')\<lparr>attrs := attr_merge obj (attrs (grp ! shape'))\<rparr>]"

text \<open>
  Modelled from the spec: \<open>doAnimate(shape, cfg, {toAttrs, coordinate})\<close> is fire-and-forget.
  A call is recorded with the shape it was given, the state that shape had when the call was
  made, and its arguments.  \<open>toAttrs = None\<close> is \<open>null\<close>.  What the driver does to the shape
  afterwards is not part of the engine.
\<close>

record ('v, 'c, 'k) AnimateCall =
  shape :: nat
  shape_state :: "'v IShape"
  animateCfg :: 'c
  toAttrs :: "'v Record option"
  coordinate :: 'k

definition doAnimate ::
  "'v IGroup \<Rightarrow> nat \<Rightarrow> 'c \<Rightarrow> 'v Record option \<Rightarrow> 'k \<Rightarrow> ('v, 'c, 'k) AnimateCall" where
  "doAnimate grp shape' cfg toAttrs' coordinate' =
     \<lparr>shape = shape', shape_state = grp ! shape', animateCfg = cfg,
      toAttrs = toAttrs', coordinate = coordinate'\<rparr>"

text \<open>The label animation configuration: three independently optional transition specs.\<close>

record 'c AnimateCfgs =
  appear :: "'c option"
  update :: "'c option"
  leave :: "'c option"

text \<open>\<open>get(animateCfg, phase)\<close>, where \<open>animateCfg\<close> is \<open>false\<close> (\<open>None\<close>) when the geometry
  has animation switched off.\<close>

definition get_cfg :: "'c AnimateCfgs option \<Rightarrow> ('c AnimateCfgs \<Rightarrow> 'c option) \<Rightarrow> 'c option" where
  "get_cfg animateCfg' phase = (case animateCfg' of None \<Rightarrow> None | Some cfgs \<Rightarrow> phase cfgs)"

section \<open>The label component\<close>

text \<open>
  What the component takes from outside: the string conversion, \<open>getDefaultAnimateCfg\<close> of the
  charting library, and the two abstract methods every chart type implements.
  \<open>getLabelItemAttrs\<close> returns the list that \<open>[].concat\<close> makes of its result.
  \<open>adjustLabel\<close> may restyle, remove or destroy the label it is given, and touches no other
  shape.  \<open>truthy\<close> says which attribute values pass an \<open>if\<close>, and \<open>properties\<close> gives the
  enumerable properties of an attribute value, none for a primitive: both matter only when
  an attribute value is read where a snapshot was expected.
\<close>

record ('v, 'c, 'k) Capabilities =
  toStr :: "'v option \<Rightarrow> string"
  truthy :: "'v \<Rightarrow> bool"
  properties :: "'v \<Rightarrow> 'v Record"
  getDefaultAnimateCfg :: "string \<Rightarrow> 'k \<Rightarrow> 'c AnimateCfgs"
  getLabelItemAttrs :: "'v Element \<Rightarrow> nat \<Rightarrow> 'v Record list"
  adjustLabel :: "'v IShape \<Rightarrow> 'v Element \<Rightarrow> nat \<Rightarrow> 'v IShape"

text \<open>
  The component.  Each of its two snapshot objects is held as its own properties
  (\<open>labelsCfgMap\<close>, \<open>lastLabelsCfgMap\<close>) and its prototype (\<open>labelsCfgMap_proto\<close>,
  \<open>lastLabelsCfgMap_proto\<close>): \<open>None\<close> as long as it is \<open>Object.prototype\<close>, and the snapshot
  that an assignment under the identity \<open>__proto__\<close> put in its place.
\<close>

record ('v, 'k) LabelComponent =
  geometry :: "'v Geometry"
  coord :: 'k
  labels :: "nat list"
  labelsCfgMap :: "'v Record Record"
  labelsCfgMap_proto :: "'v Record option"
  lastLabelsCfgMap :: "'v Record Record"
  lastLabelsCfgMap_proto :: "'v Record option"

datatype error = TypeError

definition drawLabelText ::
  "'v IGroup \<Rightarrow> 'v Record \<Rightarrow> string \<Rightarrow> string \<Rightarrow> 'v MappingDatum \<Rightarrow> nat \<times> 'v IGroup" where
  "drawLabelText grp attrs' id' name' origin' =
     addShape grp ''text'' attrs' id' name' (Some origin')"

text \<open>\<open>isArray(model.mappingData) ? model.mappingData[idx] : model.mappingData\<close>; \<open>None\<close> is
  \<open>undefined\<close>, on which \<open>getLabelId\<close> throws when it reads \<open>_origin\<close>.\<close>

definition dataItem_at :: "'v MappingData \<Rightarrow> nat \<Rightarrow> 'v MappingDatum option" where
  "dataItem_at md idx =
     (case md of
        Single d \<Rightarrow> Some d
      | Many ds \<Rightarrow> (if idx < length ds then Some (ds ! idx) else None))"

text \<open>The \<open>map\<close> of \<open>drawLabelItem\<close> over the attribute sets of one element, from index \<open>idx\<close> on.\<close>

fun drawLabelItems ::
  "('v, 'c, 'k) Capabilities \<Rightarrow> 'v Geometry \<Rightarrow> 'v MappingData \<Rightarrow> nat \<Rightarrow> 'v Record list
     \<Rightarrow> 'v IGroup \<Rightarrow> error + (nat list \<times> 'v IGroup)" where
  "drawLabelItems env geom md idx [] grp = Inr ([], grp)"
| "drawLabelItems env geom md idx (attrs' # items) grp =
     (case dataItem_at md idx of
        None \<Rightarrow> Inl TypeError
      | Some dataItem \<Rightarrow>
          (let id' = getLabelId (toStr env) geom dataItem;
               drawn = drawLabelText grp attrs' id' ''label'' dataItem
           in case drawLabelItems env geom md (Suc idx) items (snd drawn) of
                Inl e \<Rightarrow> Inl e
              | Inr rest \<Rightarrow> Inr (fst drawn # fst rest, snd rest)))"

definition drawLabelItem ::
  "('v, 'c, 'k) Capabilities \<Rightarrow> 'v Geometry \<Rightarrow> 'v IGroup \<Rightarrow> 'v Element \<Rightarrow> nat
     \<Rightarrow> error + (nat list \<times> 'v IGroup)" where
  "drawLabelItem env geom grp element elementIdx =
     drawLabelItems env geom (mappingData element) 0 (getLabelItemAttrs env element elementIdx) grp"

text \<open>The body of the inner \<open>each\<close> of \<open>renderInner\<close>: adjust one label, then keep it unless
  it reports itself destroyed.\<close>

definition adjust_and_keep ::
  "('v, 'c, 'k) Capabilities \<Rightarrow> 'v Element \<Rightarrow> nat \<Rightarrow> nat
     \<Rightarrow> ('v, 'k) LabelComponent \<times> 'v IGroup \<Rightarrow> ('v, 'k) LabelComponent \<times> 'v IGroup" where
  "adjust_and_keep env element idx label st =
     (let this = fst st;
          grp = (snd st)[label := adjustLabel env (snd st ! label) element idx];
          s = grp ! label
      in if \<not> destroyed s then
           (let assigned = obj_assign (cfg_id s) (attrs s) (labelsCfgMap this, labelsCfgMap_proto this)
            in (this\<lparr>labels := labels this @ [label],
                     labelsCfgMap := fst assigned, labelsCfgMap_proto := snd assigned\<rparr>, grp))
         else (this, grp))"

fun each_label ::
  "('v, 'c, 'k) Capabilities \<Rightarrow> 'v Element \<Rightarrow> nat \<Rightarrow> nat list
     \<Rightarrow> ('v, 'k) LabelComponent \<times> 'v IGroup \<Rightarrow> ('v, 'k) LabelComponent \<times> 'v IGroup" where
  "each_label env element idx [] st = st"
| "each_label env element idx (label # rest) st =
     each_label env element (Suc idx) rest (adjust_and_keep env element idx label st)"

fun each_element ::
  "('v, 'c, 'k) Capabilities \<Rightarrow> nat \<Rightarrow> 'v Element list
     \<Rightarrow> ('v, 'k) LabelComponent \<times> 'v IGroup \<Rightarrow> error + (('v, 'k) LabelComponent \<times> 'v IGroup)" where
  "each_element env elementIdx [] st = Inr st"
| "each_element env elementIdx (element # rest) st =
     (case drawLabelItem env (geometry (fst st)) (snd st) element elementIdx of
        Inl e \<Rightarrow> Inl e
      | Inr drawn \<Rightarrow>
          each_element env (Suc elementIdx) rest
            (each_label env element 0 (fst drawn) (fst st, snd drawn)))"

text \<open>Lines 76 to 89 of \<open>renderInner\<close>: reset the pass state and draw.\<close>

definition drawLabels ::
  "('v, 'c, 'k) Capabilities \<Rightarrow> ('v, 'k) LabelComponent \<Rightarrow> 'v IGroup
     \<Rightarrow> error + (('v, 'k) LabelComponent \<times> 'v IGroup)" where
  "drawLabels env this grp =
     each_element env 0 (elements (geometry this))
       (this\<lparr>labels := [], labelsCfgMap := [], labelsCfgMap_proto := None\<rparr>, grp)"

text \<open>
  What \<open>lastLabelsCfgMap[id]\<close> reads is a snapshot, or, through the prototype, an attribute
  value of a snapshot or a member of \<open>Object.prototype\<close>.  \<open>is_truthy\<close> is the test
  \<open>if (lastLabelsCfgMap[id])\<close>: an object or a function passes it.  \<open>attr_argument\<close> is what
  \<open>shape.attr\<close> sets when it is given that value: the properties of a snapshot, the enumerable
  properties of an attribute value, and nothing for a member of \<open>Object.prototype\<close>, which has
  no enumerable property.
\<close>

definition is_truthy :: "('v \<Rightarrow> bool) \<Rightarrow> ('v Record, 'v) Looked \<Rightarrow> bool" where
  "is_truthy truthy' x =
     (case x of Value obj \<Rightarrow> True | Member v \<Rightarrow> truthy' v | Builtin \<Rightarrow> True | Undefined \<Rightarrow> False)"

definition attr_argument :: "('v \<Rightarrow> 'v Record) \<Rightarrow> ('v Record, 'v) Looked \<Rightarrow> 'v Record" where
  "attr_argument properties' x =
     (case x of Value obj \<Rightarrow> obj | Member v \<Rightarrow> properties' v | Builtin \<Rightarrow> [] | Undefined \<Rightarrow> [])"

text \<open>
  The body of the first reconciliation loop, over the own entries of \<open>labelsCfgMap\<close>.  The
  state is the own properties of the outstanding previous map, the group and the animation
  calls issued so far; \<open>lastProto\<close> is the prototype of the previous map, which the loop does
  not change.
\<close>

definition update_or_appear ::
  "('v, 'c, 'k) Capabilities \<Rightarrow> 'v Record option \<Rightarrow> 'c AnimateCfgs option \<Rightarrow> 'k
     \<Rightarrow> string \<times> 'v Record
     \<Rightarrow> 'v Record Record \<times> 'v IGroup \<times> ('v, 'c, 'k) AnimateCall list
     \<Rightarrow> 'v Record Record \<times> 'v IGroup \<times> ('v, 'c, 'k) AnimateCall list" where
  "update_or_appear env lastProto animateCfg' coord' entry st =
     (let id' = fst entry; attrs' = snd entry;
          lastLabelsCfgMap' = fst st; grp = fst (snd st); calls = snd (snd st);
          outcome =
            (case findById grp id' of
               Some shape' \<Rightarrow>
                 (let oldAttrs = obj_get record_get lastLabelsCfgMap' lastProto id'
                  in if is_truthy (truthy env) oldAttrs then
                       (case get_cfg animateCfg' update of
                          Some updateAnimateCfg \<Rightarrow>
                            (let grp' = shape_attr shape' (attr_argument (properties env) oldAttrs) grp
                             in (grp',
                                 calls @ [doAnimate grp' shape' updateAnimateCfg (Some attrs') coord']))
                        | None \<Rightarrow> (grp, calls))
                     else
                       (case get_cfg animateCfg' appear of
                          Some appearAnimateCfg \<Rightarrow>
                            (grp,
                             calls @ [doAnimate grp shape' appearAnimateCfg
                                        (Some (attrs (grp ! shape'))) coord'])
                        | None \<Rightarrow> (grp, calls)))
             | None \<Rightarrow> (grp, calls))
      in (record_delete id' lastLabelsCfgMap', outcome))"

text \<open>The body of the second loop, over what is left of \<open>lastLabelsCfgMap\<close>.\<close>

definition leave_step ::
  "'c AnimateCfgs option \<Rightarrow> 'k \<Rightarrow> string \<times> 'v Record
     \<Rightarrow> 'v IGroup \<times> ('v, 'c, 'k) AnimateCall list
     \<Rightarrow> 'v IGroup \<times> ('v, 'c, 'k) AnimateCall list" where
  "leave_step animateCfg' coord' entry st =
     (let id' = fst entry; attrs' = snd entry; grp = fst st; calls = snd st
      in case get_cfg animateCfg' leave of
           Some leaveAnimateCfg \<Rightarrow>
             (let added = addShape grp ''text'' attrs' id' ''label'' None
              in (snd added, calls @ [doAnimate (snd added) (fst added) leaveAnimateCfg None coord']))
         | None \<Rightarrow> (grp, calls))"

definition resolve_animateCfg ::
  "('v, 'c, 'k) Capabilities \<Rightarrow> ('v, 'k) LabelComponent \<Rightarrow> 'c AnimateCfgs option" where
  "resolve_animateCfg env this =
     (if animateOption (geometry this) then Some (getDefaultAnimateCfg env ''label'' (coord this))
      else None)"

text \<open>The first loop alone: the outstanding previous map, the group and the calls after it.\<close>

definition update_phase ::
  "('v, 'c, 'k) Capabilities \<Rightarrow> ('v, 'k) LabelComponent \<Rightarrow> 'v IGroup
     \<Rightarrow> 'v Record Record \<times> 'v IGroup \<times> ('v, 'c, 'k) AnimateCall list" where
  "update_phase env this grp =
     fold (update_or_appear env (lastLabelsCfgMap_proto this) (resolve_animateCfg env this) (coord this))
       (labelsCfgMap this) (lastLabelsCfgMap this, grp, [])"

text \<open>Lines 91 to 141 of \<open>renderInner\<close>: the result is the component, the group and the
  animation calls of the pass, in the order they were issued.\<close>

definition reconcile ::
  "('v, 'c, 'k) Capabilities \<Rightarrow> ('v, 'k) LabelComponent \<Rightarrow> 'v IGroup
     \<Rightarrow> ('v, 'k) LabelComponent \<times> 'v IGroup \<times> ('v, 'c, 'k) AnimateCall list" where
  "reconcile env this grp =
     (let matched = update_phase env this grp;
          left = fold (leave_step (resolve_animateCfg env this) (coord this)) (fst matched) (snd matched)
      in (this\<lparr>lastLabelsCfgMap := labelsCfgMap this,
                lastLabelsCfgMap_proto := labelsCfgMap_proto this\<rparr>, fst left, snd left))"

definition renderInner ::
  "('v, 'c, 'k) Capabilities \<Rightarrow> ('v, 'k) LabelComponent \<Rightarrow> 'v IGroup
     \<Rightarrow> error + (('v, 'k) LabelComponent \<times> 'v IGroup \<times> ('v, 'c, 'k) AnimateCall list)" where
  "renderInner env this grp =
     (case drawLabels env this grp of
        Inl e \<Rightarrow> Inl e
      | Inr drawn \<Rightarrow> Inr (reconcile env (fst drawn) (snd drawn)))"

text \<open>The animation calls of a pass whose shape carries a given identity.\<close>

definition calls_for ::
  "string \<Rightarrow> ('v, 'c, 'k) AnimateCall list \<Rightarrow> ('v, 'c, 'k) AnimateCall list" where
  "calls_for id' calls = filter (\<lambda>call. cfg_id (shape_state call) = id') calls"

section \<open>The state while the labels are drawn\<close>

text \<open>
  What holds of the component and the group between two steps of the drawing loops, for a
  pass that started with the group \<open>g0\<close>; \<open>P\<close> holds the labels of the current element
  that are drawn and not yet adjusted.  The shapes of \<open>g0\<close> are untouched; every label on the
  list is a shape of this pass that is not destroyed; every own entry of the snapshot map is
  the identity and the attributes of a label on the list; and a shape of this pass that is
  not destroyed is on the list or still pending.
\<close>

definition draw_inv ::
  "'v IGroup \<Rightarrow> nat set \<Rightarrow> ('v, 'k) LabelComponent \<times> 'v IGroup \<Rightarrow> bool" where
  "draw_inv g0 P st =
     (distinct (map fst (labelsCfgMap (fst st)))
      \<and> length g0 \<le> length (snd st) \<and> take (length g0) (snd st) = g0
      \<and> (\<forall>a \<in> set (labels (fst st)).
            length g0 \<le> a \<and> a < length (snd st) \<and> \<not> destroyed (snd st ! a) \<and> a \<notin> P)
      \<and> (\<forall>k v. record_get (labelsCfgMap (fst st)) k = Some v \<longrightarrow>
            (\<exists>a \<in> set (labels (fst st)). cfg_id (snd st ! a) = k \<and> attrs (snd st ! a) = v))
      \<and> (\<forall>a. length g0 \<le> a \<and> a < length (snd st) \<and> \<not> destroyed (snd st ! a) \<longrightarrow>
            a \<in> set (labels (fst st)) \<or> a \<in> P)
      \<and> (\<forall>a \<in> P. length g0 \<le> a \<and> a < length (snd st)))"

text \<open>
  The only failure of a pass is the read of \<open>_origin\<close> on a data item that does not exist:
  an element whose \<open>mappingData\<close> is an array shorter than the list of its attribute sets.
  \<open>aligned\<close> says that no element from index \<open>elementIdx\<close> on is like that.
\<close>

definition enough_items :: "'v MappingData \<Rightarrow> nat \<Rightarrow> bool" where
  "enough_items md n = (case md of Single d \<Rightarrow> True | Many ds \<Rightarrow> n \<le> length ds)"

fun aligned :: "('v, 'c, 'k) Capabilities \<Rightarrow> nat \<Rightarrow> 'v Element list \<Rightarrow> bool" where
  "aligned env elementIdx [] = True"
| "aligned env elementIdx (element # rest) =
     (enough_items (mappingData element) (length (getLabelItemAttrs env element elementIdx))
      \<and> aligned env (Suc elementIdx) rest)"

section \<open>Example inputs\<close>

text \<open>A line geometry over rows with the fields \<open>year\<close>, \<open>value\<close> and \<open>type\<close>, whose element
  identity is \<open>line-\<close> followed by the series, as the charting library builds it for a line
  grouped by \<open>type\<close>.\<close>

definition line_geometry :: "JSValue Geometry" where
  "line_geometry =
     \<lparr>elements = [], animateOption = True, geom_type = ''line'',
      xScale_field = ''year'', yScale_field = ''value'',
      getElementId = (\<lambda>d. ''line-'' @ ToString (record_get (origin d) ''type''))\<rparr>"

definition row :: "JSValue \<Rightarrow> JSValue \<Rightarrow> JSValue \<Rightarrow> JSValue MappingDatum" where
  "row year value type = \<lparr>origin = [(''year'', year), (''value'', value), (''type'', type)]\<rparr>"

text \<open>
  One line series with the rows of 1991 and 1992, labelled at \<open>x = 20\<close> and \<open>x = 30\<close>.  The
  previous pass had labels for 1991, at \<open>x = 10\<close>, and for 1990, at \<open>x = 5\<close>: in this pass
  the label of 1991 is updated, that of 1992 appears and that of 1990 leaves.
\<close>

definition row_1991 :: "JSValue MappingDatum" where
  "row_1991 = row (JSString ''1991'') (JSNumber 3) (JSString ''Lon'')"

definition row_1992 :: "JSValue MappingDatum" where
  "row_1992 = row (JSString ''1992'') (JSNumber 4) (JSString ''Lon'')"

definition example_cfgs :: "string AnimateCfgs" where
  "example_cfgs =
     \<lparr>appear = Some ''fade-in'', update = Some ''position-update'', leave = Some ''fade-out''\<rparr>"

definition example_env :: "(JSValue, string, unit) Capabilities" where
  "example_env =
     \<lparr>toStr = ToString,
      truthy = (\<lambda>v. case v of JSString s \<Rightarrow> s \<noteq> [] | JSNumber n \<Rightarrow> n \<noteq> 0),
      properties = (\<lambda>v. []),
      getDefaultAnimateCfg = (\<lambda>name coord'. example_cfgs),
      getLabelItemAttrs = (\<lambda>element idx. [[(''x'', JSNumber 20)], [(''x'', JSNumber 30)]]),
      adjustLabel = (\<lambda>label element idx. label)\<rparr>"

definition example_this :: "(JSValue, unit) LabelComponent" where
  "example_this =
     \<lparr>geometry = line_geometry\<lparr>elements := [\<lparr>mappingData = Many [row_1991, row_1992]\<rparr>]\<rparr>,
      coord = (),
      labels = [],
      labelsCfgMap = [],
      labelsCfgMap_proto = None,
      lastLabelsCfgMap =
        [(''line-Lon 1991'', [(''x'', JSNumber 10)]), (''line-Lon 1990'', [(''x'', JSNumber 5)])],
      lastLabelsCfgMap_proto = None\<rparr>"

text \<open>The component and the group of the example when drawing is over and reconciliation
  starts.\<close>

definition drawn_this :: "(JSValue, unit) LabelComponent" where
  "drawn_this =
     example_this\<lparr>labels := [0, 1],
       labelsCfgMap :=
         [(''line-Lon 1991'', [(''x'', JSNumber 20)]), (''line-Lon 1992'', [(''x'', JSNumber 30)])]\<rparr>"

definition drawn_group :: "JSValue IGroup" where
  "drawn_group =
     [new_shape ''text'' [(''x'', JSNumber 20)] ''line-Lon 1991'' ''label'' (Some row_1991),
      new_shape ''text'' [(''x'', JSNumber 30)] ''line-Lon 1992'' ''label'' (Some row_1992)]"

text \<open>A chart type whose \<open>adjustLabel\<close> takes every label out of the group without destroying
  it, and the group this leaves when drawing is over.\<close>

definition detaching_env :: "(JSValue, string, unit) Capabilities" where
  "detaching_env =
     example_env\<lparr>adjustLabel := (\<lambda>label element idx. label\<lparr>has_parent := False\<rparr>)\<rparr>"

definition detached_group :: "JSValue IGroup" where
  "detached_group =
     [(new_shape ''text'' [(''x'', JSNumber 20)] ''line-Lon 1991'' ''label'' (Some row_1991))
        \<lparr>has_parent := False\<rparr>,
      (new_shape ''text'' [(''x'', JSNumber 30)] ''line-Lon 1992'' ''label'' (Some row_1992))
        \<lparr>has_parent := False\<rparr>]"

text \<open>A chart type whose \<open>adjustLabel\<close> destroys the second label of an element, and a charting
  library that configures no transition spec for labels.\<close>

definition destroying_env :: "(JSValue, string, unit) Capabilities" where
  "destroying_env =
     example_env\<lparr>adjustLabel :=
       (\<lambda>label element idx.
          if idx = 1 then label\<lparr>has_parent := False, destroyed := True\<rparr> else label)\<rparr>"

definition quiet_env :: "(JSValue, string, unit) Capabilities" where
  "quiet_env =
     example_env\<lparr>getDefaultAnimateCfg :=
       (\<lambda>name coord'. \<lparr>appear = None, update = None, leave = None\<rparr>)\<rparr>"

text \<open>
  A bar chart with one bar, whose category is the string \<open>constructor\<close>.  With no grouping
  field the charting library takes the category itself as the identity of the element.  The
  component is in its first pass: both snapshot objects are empty.  \<open>no_appear_env\<close> is the
  same chart with a label animation that has no appear spec.
\<close>

definition bar_geometry :: "JSValue Geometry" where
  "bar_geometry =
     \<lparr>elements = [\<lparr>mappingData = Single (row (JSString ''constructor'') (JSNumber 3) (JSString ''Lon''))\<rparr>],
      animateOption = True, geom_type = ''interval'',
      xScale_field = ''year'', yScale_field = ''value'',
      getElementId = (\<lambda>d. ToString (record_get (origin d) ''year''))\<rparr>"

definition bar_env :: "(JSValue, string, unit) Capabilities" where
  "bar_env = example_env\<lparr>getLabelItemAttrs := (\<lambda>element idx. [[(''x'', JSNumber 20)]])\<rparr>"

definition bar_this :: "(JSValue, unit) LabelComponent" where
  "bar_this =
     \<lparr>geometry = bar_geometry, coord = (), labels = [],
      labelsCfgMap = [], labelsCfgMap_proto = None,
      lastLabelsCfgMap = [], lastLabelsCfgMap_proto = None\<rparr>"

definition no_appear_env :: "(JSValue, string, unit) Capabilities" where
  "no_appear_env =
     bar_env\<lparr>getDefaultAnimateCfg :=
       (\<lambda>name coord'. \<lparr>appear = None, update = Some ''position-update'', leave = Some ''fade-out''\<rparr>)\<rparr>"

section \<open>Properties of the dictionary operations\<close>

lemma keys_insert_key: "fst ` set (insert_key k v m) = insert k (fst ` set m)"
  by (induction m) (auto simp: rev_image_eqI split: if_splits)

lemma map_fst_replace_key: "map fst (replace_key k v m) = map fst m"
  by (induction m) auto

lemma keys_replace_key: "fst ` set (replace_key k v m) = fst ` set m"
  using map_fst_replace_key [of k v m] by (metis set_map)

lemma map_of_insert_key:
  "k \<notin> fst ` set m \<Longrightarrow> map_of (insert_key k v m) k' = ((map_of m)(k \<mapsto> v)) k'"
  by (induction m) auto

lemma map_of_replace_key:
  "k \<in> fst ` set m \<Longrightarrow> map_of (replace_key k v m) k' = ((map_of m)(k \<mapsto> v)) k'"
  by (induction m) (auto simp: rev_image_eqI)

lemma record_get_set: "record_get (record_set k v m) k' = (if k' = k then Some v else record_get m k')"
  unfolding record_get_def record_set_def
  by (simp add: map_of_insert_key map_of_replace_key)

lemma keys_record_set: "fst ` set (record_set k v m) = insert k (fst ` set m)"
  unfolding record_set_def
  by (simp add: keys_insert_key keys_replace_key insert_absorb)

lemma distinct_insert_key:
  "k \<notin> fst ` set m \<Longrightarrow> distinct (map fst m) \<Longrightarrow> distinct (map fst (insert_key k v m))"
proof (induction m)
  case Nil
  then show ?case by simp
next
  case (Cons e m)
  obtain k' v' where e: "e = (k', v')" by (cases e)
  from Cons.prems have "k' \<notin> fst ` set (insert_key k v m)"
    unfolding keys_insert_key by (auto simp: e)
  with Cons show ?case by (auto simp: e)
qed

lemma distinct_record_set:
  "distinct (map fst m) \<Longrightarrow> distinct (map fst (record_set k v m))"
  by (simp add: record_set_def map_fst_replace_key distinct_insert_key)

lemma record_get_delete:
  "record_get (record_delete k m) k' = (if k' = k then None else record_get m k')"
  unfolding record_get_def record_delete_def
  by (induction m) auto

lemma keys_record_delete: "fst ` set (record_delete k m) = fst ` set m - {k}"
  unfolding record_delete_def by auto

lemma distinct_record_delete:
  "distinct (map fst m) \<Longrightarrow> distinct (map fst (record_delete k m))"
  unfolding record_delete_def by (simp add: distinct_map_filter)

lemma record_get_None_iff: "record_get m k = None \<longleftrightarrow> k \<notin> fst ` set m"
  unfolding record_get_def by (simp add: map_of_eq_None_iff)

lemma map_of_filter_keys:
  "map_of (filter (\<lambda>e. fst e \<notin> K) l) i = (if i \<in> K then None else map_of l i)"
  by (induction l) auto

lemma filter_key_unique:
  "distinct (map fst l) \<Longrightarrow> map_of l i = Some v \<Longrightarrow> filter (\<lambda>e. fst e = i) l = [(i, v)]"
proof (induction l)
  case Nil
  then show ?case by simp
next
  case (Cons e l)
  obtain k w where e: "e = (k, w)" by (cases e)
  show ?case
  proof (cases "k = i")
    case True
    with Cons.prems e have "filter (\<lambda>e. fst e = i) l = []"
      by (auto simp: filter_empty_conv)
    with True Cons.prems e show ?thesis by simp
  next
    case False
    with Cons e show ?thesis by simp
  qed
qed

lemma count_list_distinct:
  "distinct xs \<Longrightarrow> count_list xs x = (if x \<in> set xs then 1 else 0)"
  by (induction xs) auto

lemma count_keys:
  "distinct (map fst l) \<Longrightarrow> count_list (map fst l) i = (if record_get l i = None then 0 else 1)"
  by (simp add: count_list_distinct record_get_None_iff)

lemma first_key_position:
  "map_of l i = Some v \<Longrightarrow>
   length (takeWhile (\<lambda>e. fst e \<noteq> i) l) < length l \<and> l ! length (takeWhile (\<lambda>e. fst e \<noteq> i) l) = (i, v)"
  by (induction l) (auto split: if_splits)

lemma obj_get_own: "record_get props k = Some v \<Longrightarrow> obj_get member props proto k = Value v"
  by (simp add: obj_get_def)

lemma obj_get_cong:
  "record_get props' k = record_get props k \<Longrightarrow> obj_get member props' proto k = obj_get member props proto k"
  by (simp add: obj_get_def)

lemma obj_get_plain:
  "record_get props k = None \<Longrightarrow>
   obj_get member props None k = (if k \<in> set object_prototype_names then Builtin else Undefined)"
  by (simp add: obj_get_def object_prototype_names_def)

lemma obj_assign_own:
  "k \<noteq> ''__proto__'' \<Longrightarrow> obj_assign k v (props, proto) = (record_set k v props, proto)"
  by (simp add: obj_assign_def)

lemma obj_assign_proto: "obj_assign ''__proto__'' v (props, proto) = (props, Some v)"
  by (simp add: obj_assign_def)

lemma distinct_obj_assign:
  "distinct (map fst (fst obj)) \<Longrightarrow> distinct (map fst (fst (obj_assign k v obj)))"
  by (simp add: obj_assign_def distinct_record_set)

lemma record_get_obj_assign:
  "record_get (fst (obj_assign k v obj)) k' =
     (if k' = k \<and> k \<noteq> ''__proto__'' then Some v else record_get (fst obj) k')"
  by (simp add: obj_assign_def record_get_set)

lemma registered_snoc:
  "registered (calls @ [(t, c)]) = registerLabelComponent t c (registered calls)"
  by (simp add: registered_def)

lemma registered_plain:
  "''__proto__'' \<notin> fst ` set calls \<Longrightarrow>
   snd (fold (\<lambda>call m. registerLabelComponent (fst call) (snd call) m) calls m) = snd m
   \<and> record_get (fst (fold (\<lambda>call m. registerLabelComponent (fst call) (snd call) m) calls m)) t =
       (if t \<in> fst ` set calls then map_of (rev calls) t else record_get (fst m) t)"
proof (induction calls arbitrary: m)
  case Nil
  then show ?case by simp
next
  case (Cons call calls)
  obtain t' c where call: "call = (t', c)" by (cases call)
  from Cons.prems call have ne: "t' \<noteq> ''__proto__''" and rest: "''__proto__'' \<notin> fst ` set calls"
    by auto
  have step: "registerLabelComponent t' c m = (record_set t' c (fst m), snd m)"
    using ne by (simp add: registerLabelComponent_def obj_assign_def)
  note IH = Cons.IH [OF rest, of "(record_set t' c (fst m), snd m)"]
  show ?case
  proof (cases "t \<in> fst ` set calls")
    case True
    then have "map_of (rev calls) t \<noteq> None"
      by (simp add: map_of_eq_None_iff)
    with True IH show ?thesis
      by (auto simp: call step map_add_def split: option.splits)
  next
    case False
    then have "map_of (rev calls) t = None"
      by (simp add: map_of_eq_None_iff)
    with False IH show ?thesis
      by (auto simp: call step map_add_def record_get_set)
  qed
qed


section \<open>Properties of the scene graph\<close>

text \<open>A lookup by id depends on the ids and on which shapes are live, and \<open>shape.attr\<close>
  changes neither.\<close>

lemma findById_SomeD:
  "findById g i = Some a \<Longrightarrow> a < length g \<and> is_live (g ! a) \<and> cfg_id (g ! a) = i"
  unfolding findById_def by (auto simp: find_Some_iff)

lemma findById_cong:
  assumes "length g' = length g"
    and "\<And>a. a < length g \<Longrightarrow> is_live (g' ! a) = is_live (g ! a) \<and> cfg_id (g' ! a) = cfg_id (g ! a)"
  shows "findById g' i = findById g i"
  unfolding findById_def using assms by (auto intro!: find_cong)

lemma findById_None_iff:
  "findById g i = None \<longleftrightarrow> (\<forall>a < length g. \<not> (is_live (g ! a) \<and> cfg_id (g ! a) = i))"
  unfolding findById_def by (auto simp: find_None_iff)

lemma length_shape_attr: "length (shape_attr a obj g) = length g"
  by (simp add: shape_attr_def)

lemma nth_shape_attr_other: "b \<noteq> a \<Longrightarrow> shape_attr a obj g ! b = g ! b"
  by (simp add: shape_attr_def)

lemma nth_shape_attr_same:
  "a < length g \<Longrightarrow> shape_attr a obj g ! a = (g ! a)\<lparr>attrs := attr_merge obj (attrs (g ! a))\<rparr>"
  by (simp add: shape_attr_def)

lemma shape_attr_keeps:
  "is_live (shape_attr a obj g ! b) = is_live (g ! b) \<and> cfg_id (shape_attr a obj g ! b) = cfg_id (g ! b)"
  by (cases "b = a"; cases "a < length g") (simp_all add: shape_attr_def is_live_def list_update_beyond not_less)

lemma shape_attr_destroyed: "destroyed (shape_attr a obj g ! b) = destroyed (g ! b)"
  by (cases "b = a"; cases "a < length g") (simp_all add: shape_attr_def list_update_beyond not_less)

lemma attr_merge_other:
  "k \<notin> fst ` set obj \<Longrightarrow> record_get (attr_merge obj x) k = record_get x k"
  unfolding attr_merge_def
  by (induction obj arbitrary: x) (auto simp: record_get_set)

lemma attr_merge_get:
  "distinct (map fst obj) \<Longrightarrow> record_get obj k = Some v \<Longrightarrow> record_get (attr_merge obj x) k = Some v"
proof (induction obj arbitrary: x)
  case Nil
  then show ?case by (simp add: record_get_def)
next
  case (Cons e obj)
  obtain k' v' where e: "e = (k', v')" by (cases e)
  have unfold: "attr_merge (e # obj) x = attr_merge obj (record_set k' v' x)"
    by (simp add: attr_merge_def e)
  show ?case
  proof (cases "k' = k")
    case True
    with Cons.prems e have "k \<notin> fst ` set obj" and "v' = v"
      by (auto simp: record_get_def)
    then show ?thesis
      unfolding unfold by (simp add: attr_merge_other record_get_set True)
  next
    case False
    with Cons.prems e have "distinct (map fst obj)" and "record_get obj k = Some v"
      by (auto simp: record_get_def)
    then show ?thesis
      unfolding unfold by (rule Cons.IH)
  qed
qed

section \<open>The first reconciliation loop\<close>

text \<open>
  One step deletes its identity from the outstanding map, changes at most the shape found
  for that identity, and issues calls on that shape only.  As the keys of the current map
  are distinct, what the loop does for an identity is what a single step does for it in the
  state the loop started from.
\<close>

lemma step_last: "fst (update_or_appear env p cfg co e st) = record_delete (fst e) (fst st)"
  by (simp add: update_or_appear_def Let_def)

lemma step_group_calls_indep:
  "fst (snd (update_or_appear env p cfg co e (l, g, cs))) = fst (snd (update_or_appear env p cfg co e (l, g, [])))"
  by (simp add: update_or_appear_def Let_def split: option.splits)

lemma step_calls_append:
  "snd (snd (update_or_appear env p cfg co e (l, g, cs))) = cs @ snd (snd (update_or_appear env p cfg co e (l, g, [])))"
  by (simp add: update_or_appear_def Let_def split: option.splits)

lemma step_length: "length (fst (snd (update_or_appear env p cfg co e (l, g, cs)))) = length g"
  by (simp add: update_or_appear_def Let_def length_shape_attr split: option.splits)

lemma step_keeps:
  "is_live (fst (snd (update_or_appear env p cfg co e (l, g, cs))) ! b) = is_live (g ! b)
   \<and> cfg_id (fst (snd (update_or_appear env p cfg co e (l, g, cs))) ! b) = cfg_id (g ! b)"
  by (simp add: update_or_appear_def Let_def shape_attr_keeps split: option.splits)

lemma step_destroyed:
  "destroyed (fst (snd (update_or_appear env p cfg co e (l, g, cs))) ! b) = destroyed (g ! b)"
  by (simp add: update_or_appear_def Let_def shape_attr_destroyed split: option.splits)

lemma step_nth_other:
  "findById g (fst e) \<noteq> Some b \<Longrightarrow> fst (snd (update_or_appear env p cfg co e (l, g, cs))) ! b = g ! b"
  by (auto simp: update_or_appear_def Let_def nth_shape_attr_other split: option.splits)

lemma step_calls_id:
  "c \<in> set (snd (snd (update_or_appear env p cfg co e (l, g, [])))) \<Longrightarrow> cfg_id (shape_state c) = fst e"
  by (auto simp: update_or_appear_def Let_def doAnimate_def shape_attr_keeps
           dest: findById_SomeD split: option.splits if_splits)

lemma step_calls_live:
  "c \<in> set (snd (snd (update_or_appear env p cfg co e (l, g, [])))) \<Longrightarrow>
   shape c < length g \<and> is_live (g ! shape c)"
  by (auto simp: update_or_appear_def Let_def doAnimate_def dest: findById_SomeD
           split: option.splits if_splits)

lemma step_cong:
  assumes "findById g' i = findById g i" and "record_get l' i = record_get l i"
    and "\<And>b. findById g i = Some b \<Longrightarrow> g' ! b = g ! b" and "length g' = length g"
  shows "snd (snd (update_or_appear env p cfg co (i, at) (l', g', []))) = snd (snd (update_or_appear env p cfg co (i, at) (l, g, [])))"
    and "g' ! a = g ! a \<Longrightarrow>
         fst (snd (update_or_appear env p cfg co (i, at) (l', g', []))) ! a = fst (snd (update_or_appear env p cfg co (i, at) (l, g, []))) ! a"
proof -
  note lk = obj_get_cong [OF assms(2), of record_get p]
  show "snd (snd (update_or_appear env p cfg co (i, at) (l', g', []))) = snd (snd (update_or_appear env p cfg co (i, at) (l, g, [])))"
  proof (cases "findById g i")
    case None
    with assms show ?thesis by (simp add: update_or_appear_def Let_def)
  next
    case (Some b)
    then have b: "b < length g" "g' ! b = g ! b" using assms(3) findById_SomeD by auto
    with Some assms(1,4) show ?thesis
      by (simp add: update_or_appear_def Let_def doAnimate_def nth_shape_attr_same lk split: option.splits)
  qed
  show "fst (snd (update_or_appear env p cfg co (i, at) (l', g', []))) ! a = fst (snd (update_or_appear env p cfg co (i, at) (l, g, []))) ! a"
    if "g' ! a = g ! a"
  proof (cases "findById g i")
    case None
    with assms that show ?thesis by (simp add: update_or_appear_def Let_def)
  next
    case (Some b)
    then have b: "b < length g" "g' ! b = g ! b" using assms(3) findById_SomeD by auto
    show ?thesis
    proof (cases "a = b")
      case True
      with b Some assms(1,4) show ?thesis
        by (simp add: update_or_appear_def Let_def nth_shape_attr_same lk split: option.splits)
    next
      case False
      with b Some assms(1,4) that show ?thesis
        by (simp add: update_or_appear_def Let_def nth_shape_attr_other lk split: option.splits)
    qed
  qed
qed

lemma step_update:
  "findById g i = Some a \<Longrightarrow> record_get l i = Some old \<Longrightarrow> get_cfg cfg update = Some u \<Longrightarrow>
   update_or_appear env p cfg co (i, at) (l, g, []) =
     (record_delete i l, shape_attr a old g,
      [\<lparr>shape = a, shape_state = (g ! a)\<lparr>attrs := attr_merge old (attrs (g ! a))\<rparr>,
        animateCfg = u, toAttrs = Some at, coordinate = co\<rparr>])"
  by (frule findById_SomeD)
     (simp add: update_or_appear_def Let_def doAnimate_def nth_shape_attr_same obj_get_own
        is_truthy_def attr_argument_def)

lemma step_appear:
  "findById g i = Some a \<Longrightarrow> \<not> is_truthy (truthy env) (obj_get record_get l p i) \<Longrightarrow>
   get_cfg cfg appear = Some ap \<Longrightarrow>
   update_or_appear env p cfg co (i, at) (l, g, []) =
     (record_delete i l, g,
      [\<lparr>shape = a, shape_state = g ! a, animateCfg = ap, toAttrs = Some (attrs (g ! a)),
        coordinate = co\<rparr>])"
  by (simp add: update_or_appear_def Let_def doAnimate_def)

lemma step_missing:
  "findById g i = None \<Longrightarrow> update_or_appear env p cfg co (i, at) (l, g, []) = (record_delete i l, g, [])"
  by (simp add: update_or_appear_def Let_def)

lemma step_update_off:
  "record_get l i = Some old \<Longrightarrow> get_cfg cfg update = None \<Longrightarrow>
   update_or_appear env p cfg co (i, at) (l, g, []) = (record_delete i l, g, [])"
  by (simp add: update_or_appear_def Let_def obj_get_own is_truthy_def split: option.splits)

lemma step_appear_off:
  "\<not> is_truthy (truthy env) (obj_get record_get l p i) \<Longrightarrow> get_cfg cfg appear = None \<Longrightarrow>
   update_or_appear env p cfg co (i, at) (l, g, []) = (record_delete i l, g, [])"
  by (simp add: update_or_appear_def Let_def split: option.splits)

lemma loop1_last:
  "fst (fold (update_or_appear env p cfg co) es (l, g, cs)) = filter (\<lambda>e. fst e \<notin> fst ` set es) l"
proof (induction es arbitrary: l g cs)
  case Nil
  then show ?case by simp
next
  case (Cons e es)
  obtain l1 g1 cs1 where st: "update_or_appear env p cfg co e (l, g, cs) = (l1, g1, cs1)"
    by (cases "update_or_appear env p cfg co e (l, g, cs)") auto
  have "l1 = record_delete (fst e) l"
    using step_last [of env p cfg co e "(l, g, cs)"] st by simp
  then show ?case
    by (simp add: st Cons.IH record_delete_def conj_commute)
qed

lemma loop1_keeps:
  "length (fst (snd (fold (update_or_appear env p cfg co) es (l, g, cs)))) = length g
   \<and> is_live (fst (snd (fold (update_or_appear env p cfg co) es (l, g, cs))) ! b) = is_live (g ! b)
   \<and> cfg_id (fst (snd (fold (update_or_appear env p cfg co) es (l, g, cs))) ! b) = cfg_id (g ! b)"
proof (induction es arbitrary: l g cs)
  case Nil
  then show ?case by simp
next
  case (Cons e es)
  obtain l1 g1 cs1 where st: "update_or_appear env p cfg co e (l, g, cs) = (l1, g1, cs1)"
    by (cases "update_or_appear env p cfg co e (l, g, cs)") auto
  have "length g1 = length g" "is_live (g1 ! b) = is_live (g ! b)" "cfg_id (g1 ! b) = cfg_id (g ! b)"
    using step_length [of env p cfg co e l g cs] step_keeps [of env p cfg co e l g cs b] st by simp_all
  then show ?case
    by (simp add: st Cons.IH)
qed

lemma loop1_destroyed:
  "destroyed (fst (snd (fold (update_or_appear env p cfg co) es (l, g, cs))) ! b) = destroyed (g ! b)"
proof (induction es arbitrary: l g cs)
  case Nil
  then show ?case by simp
next
  case (Cons e es)
  obtain l1 g1 cs1 where st: "update_or_appear env p cfg co e (l, g, cs) = (l1, g1, cs1)"
    by (cases "update_or_appear env p cfg co e (l, g, cs)") auto
  have "destroyed (g1 ! b) = destroyed (g ! b)"
    using step_destroyed [of env p cfg co e l g cs b] st by simp
  then show ?case by (simp add: st Cons.IH)
qed

lemma loop1_findById:
  "findById (fst (snd (fold (update_or_appear env p cfg co) es (l, g, cs)))) i = findById g i"
  by (rule findById_cong) (simp_all add: loop1_keeps)

lemma loop1_group_off:
  "get_cfg cfg update = None \<Longrightarrow> fst (snd (fold (update_or_appear env p cfg co) es (l, g, cs))) = g"
proof (induction es arbitrary: l g cs)
  case Nil
  then show ?case by simp
next
  case (Cons e es)
  obtain l1 g1 cs1 where st: "update_or_appear env p cfg co e (l, g, cs) = (l1, g1, cs1)"
    by (cases "update_or_appear env p cfg co e (l, g, cs)") auto
  from Cons.prems st have "g1 = g"
    by (auto simp: update_or_appear_def Let_def split: option.splits if_splits)
  with Cons show ?case by (simp add: st)
qed

lemma calls_for_append: "calls_for i (xs @ ys) = calls_for i xs @ calls_for i ys"
  by (simp add: calls_for_def)

lemma calls_for_own:
  "(\<And>c. c \<in> set cs \<Longrightarrow> cfg_id (shape_state c) = k) \<Longrightarrow> calls_for i cs = (if i = k then cs else [])"
  by (induction cs) (auto simp: calls_for_def)

lemma loop1_calls:
  assumes "distinct (map fst es)"
  shows "calls_for i (snd (snd (fold (update_or_appear env p cfg co) es (l, g, cs)))) =
           calls_for i cs @
           (case map_of es i of None \<Rightarrow> []
            | Some at \<Rightarrow> snd (snd (update_or_appear env p cfg co (i, at) (l, g, []))))"
  using assms
proof (induction es arbitrary: l g cs)
  case Nil
  then show ?case by simp
next
  case (Cons e es)
  obtain k v where e: "e = (k, v)" by (cases e)
  obtain l1 g1 cs1 where st: "update_or_appear env p cfg co e (l, g, cs) = (l1, g1, cs1)"
    by (cases "update_or_appear env p cfg co e (l, g, cs)") auto
  have l1: "l1 = record_delete k l"
    using step_last [of env p cfg co e "(l, g, cs)"] st e by simp
  have cs1: "cs1 = cs @ snd (snd (update_or_appear env p cfg co (k, v) (l, g, [])))"
    using step_calls_append [of env p cfg co e l g cs] st e by simp
  have own: "calls_for i (snd (snd (update_or_appear env p cfg co (k, v) (l, g, [])))) =
               (if i = k then snd (snd (update_or_appear env p cfg co (k, v) (l, g, []))) else [])"
    by (rule calls_for_own) (use step_calls_id [of _ env p cfg co "(k, v)" l g] in simp)
  have IH: "calls_for i (snd (snd (fold (update_or_appear env p cfg co) es (l1, g1, cs1)))) =
           calls_for i cs1 @
           (case map_of es i of None \<Rightarrow> []
            | Some at \<Rightarrow> snd (snd (update_or_appear env p cfg co (i, at) (l1, g1, []))))"
    using Cons.IH [of l1 g1 cs1] Cons.prems by simp
  have unfold: "fold (update_or_appear env p cfg co) (e # es) (l, g, cs) =
                fold (update_or_appear env p cfg co) es (l1, g1, cs1)"
    by (simp add: st)
  show ?case
  proof (cases "i = k")
    case True
    with Cons.prems e have none: "map_of es i = None"
      by (simp add: map_of_eq_None_iff)
    show ?thesis
      unfolding unfold IH none
      using own by (simp add: True e cs1 calls_for_append)
  next
    case False
    have same: "snd (snd (update_or_appear env p cfg co (i, at) (l1, g1, []))) =
                snd (snd (update_or_appear env p cfg co (i, at) (l, g, [])))" for at
    proof (rule step_cong(1))
      show "findById g1 i = findById g i"
        using loop1_findById [of env p cfg co "[e]" l g cs i] st by simp
      show "record_get l1 i = record_get l i"
        using False by (simp add: l1 record_get_delete)
      show "length g1 = length g"
        using step_length [of env p cfg co e l g cs] st by simp
      show "g1 ! b = g ! b" if "findById g i = Some b" for b
      proof -
        have "cfg_id (g ! b) = i" using that findById_SomeD by blast
        then have "findById g (fst e) \<noteq> Some b"
          using False e findById_SomeD by fastforce
        from step_nth_other [OF this, of env p cfg co l cs] st show ?thesis by simp
      qed
    qed
    show ?thesis
      unfolding unfold IH same
      using False by (simp add: e cs1 calls_for_append own)
  qed
qed

lemma loop1_nth:
  assumes "distinct (map fst es)"
  shows "fst (snd (fold (update_or_appear env p cfg co) es (l, g, cs))) ! a =
           (case map_of es (cfg_id (g ! a)) of None \<Rightarrow> g ! a
            | Some at \<Rightarrow> fst (snd (update_or_appear env p cfg co (cfg_id (g ! a), at) (l, g, []))) ! a)"
  using assms
proof (induction es arbitrary: l g cs)
  case Nil
  then show ?case by simp
next
  case (Cons e es)
  obtain k v where e: "e = (k, v)" by (cases e)
  obtain l1 g1 cs1 where st: "update_or_appear env p cfg co e (l, g, cs) = (l1, g1, cs1)"
    by (cases "update_or_appear env p cfg co e (l, g, cs)") auto
  have l1: "l1 = record_delete k l"
    using step_last [of env p cfg co e "(l, g, cs)"] st e by simp
  have g1: "g1 = fst (snd (update_or_appear env p cfg co (k, v) (l, g, [])))"
    using step_group_calls_indep [of env p cfg co e l g cs] st e by simp
  have id1: "cfg_id (g1 ! a) = cfg_id (g ! a)"
    using step_keeps [of env p cfg co e l g cs a] st by simp
  have IH: "fst (snd (fold (update_or_appear env p cfg co) es (l1, g1, cs1))) ! a =
           (case map_of es (cfg_id (g ! a)) of None \<Rightarrow> g1 ! a
            | Some at \<Rightarrow> fst (snd (update_or_appear env p cfg co (cfg_id (g ! a), at) (l1, g1, []))) ! a)"
    using Cons.IH [of l1 g1 cs1] Cons.prems unfolding id1 by simp
  have unfold: "fold (update_or_appear env p cfg co) (e # es) (l, g, cs) =
                fold (update_or_appear env p cfg co) es (l1, g1, cs1)"
    by (simp add: st)
  show ?case
  proof (cases "cfg_id (g ! a) = k")
    case True
    with Cons.prems e have none: "map_of es (cfg_id (g ! a)) = None"
      by (simp add: map_of_eq_None_iff)
    show ?thesis
      unfolding unfold IH none
      by (simp add: True e g1)
  next
    case False
    then have "findById g (fst e) \<noteq> Some a"
      using e findById_SomeD by fastforce
    from step_nth_other [OF this, of env p cfg co l cs] st have keep: "g1 ! a = g ! a" by simp
    have same: "fst (snd (update_or_appear env p cfg co (cfg_id (g ! a), at) (l1, g1, []))) ! a =
                fst (snd (update_or_appear env p cfg co (cfg_id (g ! a), at) (l, g, []))) ! a" for at
    proof (rule step_cong(2))
      show "findById g1 (cfg_id (g ! a)) = findById g (cfg_id (g ! a))"
        using loop1_findById [of env p cfg co "[e]" l g cs] st by simp
      show "record_get l1 (cfg_id (g ! a)) = record_get l (cfg_id (g ! a))"
        using False by (simp add: l1 record_get_delete)
      show "length g1 = length g"
        using step_length [of env p cfg co e l g cs] st by simp
      show "g1 ! b = g ! b" if "findById g (cfg_id (g ! a)) = Some b" for b
      proof -
        have "cfg_id (g ! b) = cfg_id (g ! a)" using that findById_SomeD by blast
        then have "findById g (fst e) \<noteq> Some b"
          using False e findById_SomeD by fastforce
        from step_nth_other [OF this, of env p cfg co l cs] st show ?thesis by simp
      qed
      show "g1 ! a = g ! a" by (rule keep)
    qed
    show ?thesis
      unfolding unfold IH same keep
      using False by (simp add: e)
  qed
qed

lemma loop1_calls_live:
  "c \<in> set (snd (snd (fold (update_or_appear env p cfg co) es (l, g, cs)))) \<Longrightarrow>
   c \<in> set cs \<or> (shape c < length g \<and> is_live (g ! shape c))"
proof (induction es arbitrary: l g cs)
  case Nil
  then show ?case by simp
next
  case (Cons e es)
  obtain l1 g1 cs1 where st: "update_or_appear env p cfg co e (l, g, cs) = (l1, g1, cs1)"
    by (cases "update_or_appear env p cfg co e (l, g, cs)") auto
  have g1: "length g1 = length g" "is_live (g1 ! shape c) = is_live (g ! shape c)"
    using step_length [of env p cfg co e l g cs] step_keeps [of env p cfg co e l g cs "shape c"] st by simp_all
  have cs1: "cs1 = cs @ snd (snd (update_or_appear env p cfg co e (l, g, [])))"
    using step_calls_append [of env p cfg co e l g cs] st by simp
  from Cons.prems have "c \<in> set (snd (snd (fold (update_or_appear env p cfg co) es (l1, g1, cs1))))"
    by (simp add: st)
  from Cons.IH [OF this] consider "c \<in> set cs"
    | "c \<in> set (snd (snd (update_or_appear env p cfg co e (l, g, []))))"
    | "shape c < length g1 \<and> is_live (g1 ! shape c)"
    unfolding cs1 by auto
  then show ?case
  proof cases
    case 1
    then show ?thesis by simp
  next
    case 2
    from step_calls_live [OF this] show ?thesis by simp
  next
    case 3
    with g1 show ?thesis by simp
  qed
qed

section \<open>The second reconciliation loop\<close>

text \<open>With a leave spec the loop appends one transient shape per outstanding entry, and one
  call on it; without, it does nothing.\<close>

lemma leave_loop_off:
  "get_cfg cfg leave = None \<Longrightarrow> fold (leave_step cfg co) out st = st"
  by (induction out arbitrary: st) (simp_all add: leave_step_def Let_def)

lemma leave_loop_group:
  "get_cfg cfg leave = Some lv \<Longrightarrow>
   fst (fold (leave_step cfg co) out (g, cs)) =
     g @ map (\<lambda>e. new_shape ''text'' (snd e) (fst e) ''label'' None) out"
  by (induction out arbitrary: g cs) (simp_all add: leave_step_def Let_def addShape_def)

lemma leave_loop_calls:
  assumes "get_cfg cfg leave = Some lv" and "distinct (map fst out)"
  shows "calls_for i (snd (fold (leave_step cfg co) out (g, cs))) =
           calls_for i cs @
           (case map_of out i of None \<Rightarrow> []
            | Some old \<Rightarrow>
                [\<lparr>shape = length g + length (takeWhile (\<lambda>e. fst e \<noteq> i) out),
                  shape_state = new_shape ''text'' old i ''label'' None,
                  animateCfg = lv, toAttrs = None, coordinate = co\<rparr>])"
  using assms(2)
proof (induction out arbitrary: g cs)
  case Nil
  then show ?case by simp
next
  case (Cons e out)
  obtain k v where e: "e = (k, v)" by (cases e)
  let ?s = "new_shape ''text'' v k ''label'' None"
  let ?c = "\<lparr>shape = length g, shape_state = ?s, animateCfg = lv, toAttrs = None, coordinate = co\<rparr>"
  have st: "leave_step cfg co e (g, cs) = (g @ [?s], cs @ [?c])"
    using assms(1) by (simp add: leave_step_def Let_def addShape_def doAnimate_def e)
  have IH: "calls_for i (snd (fold (leave_step cfg co) out (g @ [?s], cs @ [?c]))) =
           calls_for i (cs @ [?c]) @
           (case map_of out i of None \<Rightarrow> []
            | Some old \<Rightarrow>
                [\<lparr>shape = length (g @ [?s]) + length (takeWhile (\<lambda>e. fst e \<noteq> i) out),
                  shape_state = new_shape ''text'' old i ''label'' None,
                  animateCfg = lv, toAttrs = None, coordinate = co\<rparr>])"
    using Cons.IH [of "g @ [?s]" "cs @ [?c]"] Cons.prems by simp
  have unfold: "fold (leave_step cfg co) (e # out) (g, cs) =
                fold (leave_step cfg co) out (g @ [?s], cs @ [?c])"
    by (simp add: st)
  show ?case
  proof (cases "i = k")
    case True
    with Cons.prems e have none: "map_of out i = None"
      by (simp add: map_of_eq_None_iff)
    show ?thesis
      unfolding unfold IH none
      by (simp add: True e calls_for_def new_shape_def)
  next
    case False
    show ?thesis
      unfolding unfold IH
      using False by (simp add: e calls_for_def new_shape_def split: option.splits)
  qed
qed

lemma leave_loop_calls_new:
  "c \<in> set (snd (fold (leave_step cfg co) out (g, cs))) \<Longrightarrow> c \<in> set cs \<or> length g \<le> shape c"
proof (induction out arbitrary: g cs)
  case Nil
  then show ?case by simp
next
  case (Cons e out)
  obtain g1 cs1 where st: "leave_step cfg co e (g, cs) = (g1, cs1)"
    by (cases "leave_step cfg co e (g, cs)") auto
  have g1: "length g \<le> length g1"
    and cs1: "\<And>c. c \<in> set cs1 \<Longrightarrow> c \<in> set cs \<or> length g \<le> shape c"
    using st by (auto simp: leave_step_def Let_def addShape_def doAnimate_def split: option.splits)
  from Cons.prems have "c \<in> set (snd (fold (leave_step cfg co) out (g1, cs1)))"
    by (simp add: st)
  from Cons.IH [OF this] cs1 [of c] g1 show ?case by auto
qed


section \<open>Reconciliation as a whole\<close>

text \<open>The calls of a pass for one identity, the group after the pass, and what the pass
  leaves of the shapes it found.\<close>

lemma get_cfg_resolve:
  "get_cfg (resolve_animateCfg env this) phase =
     (if animateOption (geometry this) then phase (getDefaultAnimateCfg env ''label'' (coord this))
      else None)"
  by (simp add: get_cfg_def resolve_animateCfg_def)

lemma update_phase_outstanding:
  "fst (update_phase env this g) =
     filter (\<lambda>e. fst e \<notin> fst ` set (labelsCfgMap this)) (lastLabelsCfgMap this)"
  by (simp add: update_phase_def loop1_last)

lemma outstanding_get:
  "record_get (fst (update_phase env this g)) i =
     (if i \<in> fst ` set (labelsCfgMap this) then None else record_get (lastLabelsCfgMap this) i)"
  by (simp add: update_phase_outstanding record_get_def map_of_filter_keys)

lemma outstanding_distinct:
  "distinct (map fst (lastLabelsCfgMap this)) \<Longrightarrow> distinct (map fst (fst (update_phase env this g)))"
  by (simp add: update_phase_outstanding distinct_map_filter)

lemma update_phase_length: "length (fst (snd (update_phase env this g))) = length g"
  by (simp add: update_phase_def loop1_keeps)

lemma update_phase_calls:
  "distinct (map fst (labelsCfgMap this)) \<Longrightarrow>
   calls_for i (snd (snd (update_phase env this g))) =
     (case record_get (labelsCfgMap this) i of None \<Rightarrow> []
      | Some at \<Rightarrow>
          snd (snd (update_or_appear env (lastLabelsCfgMap_proto this) (resolve_animateCfg env this) (coord this) (i, at)
                      (lastLabelsCfgMap this, g, []))))"
  unfolding update_phase_def record_get_def
  using loop1_calls [of "labelsCfgMap this" i env "lastLabelsCfgMap_proto this"
      "resolve_animateCfg env this" "coord this" "lastLabelsCfgMap this" g "[]"]
  by (simp add: calls_for_def)

lemma update_phase_nth:
  "distinct (map fst (labelsCfgMap this)) \<Longrightarrow>
   fst (snd (update_phase env this g)) ! a =
     (case record_get (labelsCfgMap this) (cfg_id (g ! a)) of None \<Rightarrow> g ! a
      | Some at \<Rightarrow>
          fst (snd (update_or_appear env (lastLabelsCfgMap_proto this) (resolve_animateCfg env this) (coord this) (cfg_id (g ! a), at)
                      (lastLabelsCfgMap this, g, []))) ! a)"
  unfolding update_phase_def record_get_def by (rule loop1_nth)

lemma reconcile_this:
  "fst (reconcile env this g) =
     this\<lparr>lastLabelsCfgMap := labelsCfgMap this, lastLabelsCfgMap_proto := labelsCfgMap_proto this\<rparr>"
  by (simp add: reconcile_def Let_def)

lemma reconcile_group:
  "fst (snd (reconcile env this g)) =
     fst (snd (update_phase env this g)) @
     (case get_cfg (resolve_animateCfg env this) leave of None \<Rightarrow> []
      | Some lv \<Rightarrow> map (\<lambda>e. new_shape ''text'' (snd e) (fst e) ''label'' None)
                     (fst (update_phase env this g)))"
proof (cases "get_cfg (resolve_animateCfg env this) leave")
  case None
  then show ?thesis by (simp add: reconcile_def Let_def leave_loop_off)
next
  case (Some lv)
  have "snd (update_phase env this g) =
          (fst (snd (update_phase env this g)), snd (snd (update_phase env this g)))" by simp
  then have "fst (fold (leave_step (resolve_animateCfg env this) (coord this))
               (fst (update_phase env this g)) (snd (update_phase env this g))) =
             fst (snd (update_phase env this g)) @
             map (\<lambda>e. new_shape ''text'' (snd e) (fst e) ''label'' None) (fst (update_phase env this g))"
    using leave_loop_group [OF Some, of "coord this" "fst (update_phase env this g)"
        "fst (snd (update_phase env this g))" "snd (snd (update_phase env this g))"]
    by simp
  with Some show ?thesis by (simp add: reconcile_def Let_def)
qed

lemma reconcile_calls:
  assumes "distinct (map fst (labelsCfgMap this))" and "distinct (map fst (lastLabelsCfgMap this))"
  shows "calls_for i (snd (snd (reconcile env this g))) =
     (case record_get (labelsCfgMap this) i of
        Some at \<Rightarrow>
          snd (snd (update_or_appear env (lastLabelsCfgMap_proto this) (resolve_animateCfg env this) (coord this) (i, at)
                      (lastLabelsCfgMap this, g, [])))
      | None \<Rightarrow>
          (case get_cfg (resolve_animateCfg env this) leave of None \<Rightarrow> []
           | Some lv \<Rightarrow>
               (case record_get (lastLabelsCfgMap this) i of None \<Rightarrow> []
                | Some old \<Rightarrow>
                    [\<lparr>shape = length g + length (takeWhile (\<lambda>e. fst e \<noteq> i) (fst (update_phase env this g))),
                      shape_state = new_shape ''text'' old i ''label'' None,
                      animateCfg = lv, toAttrs = None, coordinate = coord this\<rparr>])))"
proof (cases "get_cfg (resolve_animateCfg env this) leave")
  case None
  then have "snd (snd (reconcile env this g)) = snd (snd (update_phase env this g))"
    by (simp add: reconcile_def Let_def leave_loop_off)
  with None show ?thesis
    by (simp add: update_phase_calls [OF assms(1)] split: option.splits)
next
  case (Some lv)
  let ?out = "fst (update_phase env this g)"
  have pair: "snd (update_phase env this g) =
          (fst (snd (update_phase env this g)), snd (snd (update_phase env this g)))" by simp
  have "calls_for i (snd (fold (leave_step (resolve_animateCfg env this) (coord this)) ?out
                        (fst (snd (update_phase env this g)), snd (snd (update_phase env this g))))) =
        calls_for i (snd (snd (update_phase env this g))) @
        (case map_of ?out i of None \<Rightarrow> []
         | Some old \<Rightarrow>
             [\<lparr>shape = length (fst (snd (update_phase env this g))) + length (takeWhile (\<lambda>e. fst e \<noteq> i) ?out),
               shape_state = new_shape ''text'' old i ''label'' None,
               animateCfg = lv, toAttrs = None, coordinate = coord this\<rparr>])"
    by (rule leave_loop_calls [OF Some outstanding_distinct [OF assms(2)]])
  then have calls: "calls_for i (snd (snd (reconcile env this g))) =
        calls_for i (snd (snd (update_phase env this g))) @
        (case record_get ?out i of None \<Rightarrow> []
         | Some old \<Rightarrow>
             [\<lparr>shape = length g + length (takeWhile (\<lambda>e. fst e \<noteq> i) ?out),
               shape_state = new_shape ''text'' old i ''label'' None,
               animateCfg = lv, toAttrs = None, coordinate = coord this\<rparr>])"
    by (simp add: reconcile_def Let_def update_phase_length record_get_def split: option.splits)
  show ?thesis
  proof (cases "record_get (labelsCfgMap this) i")
    case None
    then have "i \<notin> fst ` set (labelsCfgMap this)" by (simp add: record_get_None_iff)
    with None Some show ?thesis
      unfolding calls by (simp add: update_phase_calls [OF assms(1)] outstanding_get)
  next
    case (Some at)
    then have "i \<in> fst ` set (labelsCfgMap this)"
      using record_get_None_iff [of "labelsCfgMap this" i] by simp
    with Some show ?thesis
      unfolding calls by (simp add: update_phase_calls [OF assms(1)] outstanding_get)
  qed
qed

lemma reconcile_nth:
  "a < length g \<Longrightarrow> fst (snd (reconcile env this g)) ! a = fst (snd (update_phase env this g)) ! a"
  by (simp add: reconcile_group nth_append update_phase_length)

lemma reconcile_length:
  "length (fst (snd (reconcile env this g))) =
     length g + (case get_cfg (resolve_animateCfg env this) leave of None \<Rightarrow> 0
                 | Some lv \<Rightarrow> length (fst (update_phase env this g)))"
  by (simp add: reconcile_group update_phase_length split: option.splits)

lemma reconcile_added:
  "drop (length g) (fst (snd (reconcile env this g))) =
     (case get_cfg (resolve_animateCfg env this) leave of None \<Rightarrow> []
      | Some lv \<Rightarrow> map (\<lambda>e. new_shape ''text'' (snd e) (fst e) ''label'' None)
                     (fst (update_phase env this g)))"
  using update_phase_length [of env this g]
  by (simp add: reconcile_group)

lemma reconcile_calls_target:
  assumes "c \<in> set (snd (snd (reconcile env this g)))"
  shows "(shape c < length g \<and> is_live (g ! shape c)) \<or> length g \<le> shape c"
proof -
  let ?m = "update_phase env this g"
  have "c \<in> set (snd (fold (leave_step (resolve_animateCfg env this) (coord this)) (fst ?m)
                        (fst (snd ?m), snd (snd ?m))))"
    using assms by (simp add: reconcile_def Let_def)
  from leave_loop_calls_new [OF this] update_phase_length [of env this g]
  consider "c \<in> set (snd (snd ?m))" | "length g \<le> shape c" by auto
  then show ?thesis
  proof cases
    case 1
    from loop1_calls_live [OF this [unfolded update_phase_def]] show ?thesis by simp
  next
    case 2
    then show ?thesis by simp
  qed
qed

lemma reconcile_old_shape:
  assumes "a < length g"
  shows "destroyed (fst (snd (reconcile env this g)) ! a) = destroyed (g ! a)"
    and "cfg_id (fst (snd (reconcile env this g)) ! a) = cfg_id (g ! a)"
    and "is_live (fst (snd (reconcile env this g)) ! a) = is_live (g ! a)"
  using assms
  by (simp_all add: reconcile_nth update_phase_def loop1_destroyed loop1_keeps)

lemma reconcile_new_shape:
  assumes "length g \<le> a" and "a < length (fst (snd (reconcile env this g)))"
  shows "\<not> destroyed (fst (snd (reconcile env this g)) ! a)"
proof (cases "get_cfg (resolve_animateCfg env this) leave")
  case None
  with assms show ?thesis by (simp add: reconcile_length)
next
  case (Some lv)
  from assms have "a - length g < length (fst (update_phase env this g))"
    by (simp add: reconcile_length Some)
  with assms(1) Some show ?thesis
    by (simp add: reconcile_group nth_append update_phase_length new_shape_def)
qed

lemma reconcile_findById_off:
  "get_cfg (resolve_animateCfg env this) leave = None \<Longrightarrow>
   findById (fst (snd (reconcile env this g))) i = findById g i"
  by (simp add: reconcile_group update_phase_def loop1_findById)


section \<open>The drawing loops\<close>

text \<open>Every step of the drawing loops keeps \<open>draw_inv\<close>, and a pass fails exactly when an
  element has fewer data items than attribute sets.\<close>

lemma adjust_and_keep_frame:
  "geometry (fst (adjust_and_keep env el idx label st)) = geometry (fst st)
   \<and> coord (fst (adjust_and_keep env el idx label st)) = coord (fst st)
   \<and> lastLabelsCfgMap (fst (adjust_and_keep env el idx label st)) = lastLabelsCfgMap (fst st)"
  by (simp add: adjust_and_keep_def Let_def)

lemma draw_invI:
  assumes "distinct (map fst (labelsCfgMap c))"
    and "length g0 \<le> length g" and "take (length g0) g = g0"
    and "\<And>a. a \<in> set (labels c) \<Longrightarrow>
           length g0 \<le> a \<and> a < length g \<and> \<not> destroyed (g ! a) \<and> a \<notin> P"
    and "\<And>k v. record_get (labelsCfgMap c) k = Some v \<Longrightarrow>
           \<exists>a \<in> set (labels c). cfg_id (g ! a) = k \<and> attrs (g ! a) = v"
    and "\<And>a. length g0 \<le> a \<Longrightarrow> a < length g \<Longrightarrow> \<not> destroyed (g ! a) \<Longrightarrow>
           a \<in> set (labels c) \<or> a \<in> P"
    and "\<And>a. a \<in> P \<Longrightarrow> length g0 \<le> a \<and> a < length g"
  shows "draw_inv g0 P (c, g)"
  unfolding draw_inv_def fst_conv snd_conv
  using assms by blast

lemma draw_invD:
  assumes "draw_inv g0 P (c, g)"
  shows "distinct (map fst (labelsCfgMap c))"
    and "length g0 \<le> length g" and "take (length g0) g = g0"
    and "\<And>a. a \<in> set (labels c) \<Longrightarrow>
           length g0 \<le> a \<and> a < length g \<and> \<not> destroyed (g ! a) \<and> a \<notin> P"
    and "\<And>k v. record_get (labelsCfgMap c) k = Some v \<Longrightarrow>
           \<exists>a \<in> set (labels c). cfg_id (g ! a) = k \<and> attrs (g ! a) = v"
    and "\<And>a. length g0 \<le> a \<Longrightarrow> a < length g \<Longrightarrow> \<not> destroyed (g ! a) \<Longrightarrow>
           a \<in> set (labels c) \<or> a \<in> P"
    and "\<And>a. a \<in> P \<Longrightarrow> length g0 \<le> a \<and> a < length g"
  using assms unfolding draw_inv_def fst_conv snd_conv by blast+

lemma adjust_and_keep_inv:
  assumes inv: "draw_inv g0 P st" and pend: "label \<in> P"
  shows "draw_inv g0 (P - {label}) (adjust_and_keep env el idx label st)"
proof -
  obtain c g where st: "st = (c, g)" by (cases st)
  note I = draw_invD [OF inv [unfolded st]]
  let ?s = "adjustLabel env (g ! label) el idx"
  let ?g = "g[label := ?s]"
  from I(7) [OF pend] have lab: "length g0 \<le> label" "label < length g" by simp_all
  from I(4) pend have notin: "label \<notin> set (labels c)" by blast
  have same: "?g ! a = g ! a" if "a \<in> set (labels c)" for a
  proof -
    from that notin have "a \<noteq> label" by blast
    then show ?thesis by simp
  qed
  have self: "?g ! label = ?s" using lab by simp
  have other: "?g ! a = g ! a" if "a \<noteq> label" for a using that by simp
  have tk: "take (length g0) ?g = g0" using I(3) lab by simp
  show ?thesis
  proof (cases "destroyed ?s")
    case True
    then have res: "adjust_and_keep env el idx label st = (c, ?g)"
      by (simp add: adjust_and_keep_def Let_def st lab)
    show ?thesis
      unfolding res
    proof (rule draw_invI)
      show "distinct (map fst (labelsCfgMap c))" by (rule I(1))
      show "length g0 \<le> length ?g" using I(2) by simp
      show "take (length g0) ?g = g0" by (rule tk)
      show "length g0 \<le> a \<and> a < length ?g \<and> \<not> destroyed (?g ! a) \<and> a \<notin> P - {label}"
        if "a \<in> set (labels c)" for a
        using I(4) [OF that] same [OF that] by simp
      show "\<exists>a\<in>set (labels c). cfg_id (?g ! a) = k \<and> attrs (?g ! a) = v"
        if "record_get (labelsCfgMap c) k = Some v" for k v
        using I(5) [OF that] same by auto
      show "a \<in> set (labels c) \<or> a \<in> P - {label}"
        if "length g0 \<le> a" "a < length ?g" "\<not> destroyed (?g ! a)" for a
      proof -
        from that(3) True self have ne: "a \<noteq> label" by auto
        with that other [OF ne] I(6) [of a] show ?thesis by simp
      qed
      show "length g0 \<le> a \<and> a < length ?g" if "a \<in> P - {label}" for a
        using that I(7) [of a] by simp
    qed
  next
    case False
    let ?m = "obj_assign (cfg_id ?s) (attrs ?s) (labelsCfgMap c, labelsCfgMap_proto c)"
    let ?c = "c\<lparr>labels := labels c @ [label], labelsCfgMap := fst ?m, labelsCfgMap_proto := snd ?m\<rparr>"
    from False have res: "adjust_and_keep env el idx label st = (?c, ?g)"
      by (simp add: adjust_and_keep_def Let_def st lab)
    have get: "record_get (fst ?m) k =
                 (if k = cfg_id ?s \<and> cfg_id ?s \<noteq> ''__proto__'' then Some (attrs ?s)
                  else record_get (labelsCfgMap c) k)" for k
      using record_get_obj_assign [of "cfg_id ?s" "attrs ?s" "(labelsCfgMap c, labelsCfgMap_proto c)" k]
      by simp
    show ?thesis
      unfolding res
    proof (rule draw_invI)
      show "distinct (map fst (labelsCfgMap ?c))"
        using I(1) distinct_obj_assign [of "(labelsCfgMap c, labelsCfgMap_proto c)" "cfg_id ?s" "attrs ?s"]
        by simp
      show "length g0 \<le> length ?g" using I(2) by simp
      show "take (length g0) ?g = g0" by (rule tk)
      show "length g0 \<le> a \<and> a < length ?g \<and> \<not> destroyed (?g ! a) \<and> a \<notin> P - {label}"
        if "a \<in> set (labels ?c)" for a
      proof -
        from that consider "a = label" | "a \<in> set (labels c)" by auto
        then show ?thesis
        proof cases
          case 1
          with lab False self show ?thesis by simp
        next
          case 2
          with I(4) [OF 2] same [OF 2] show ?thesis by simp
        qed
      qed
      show "\<exists>a\<in>set (labels ?c). cfg_id (?g ! a) = k \<and> attrs (?g ! a) = v"
        if kv: "record_get (labelsCfgMap ?c) k = Some v" for k v
      proof (cases "k = cfg_id ?s \<and> cfg_id ?s \<noteq> ''__proto__''")
        case True
        with kv have "v = attrs ?s" by (simp add: get)
        with True self show ?thesis by auto
      next
        case False
        with kv have "record_get (labelsCfgMap c) k = Some v" by (simp add: get)
        from I(5) [OF this] obtain a where a: "a \<in> set (labels c)" "cfg_id (g ! a) = k" "attrs (g ! a) = v"
          by blast
        from a same [OF a(1)] have "a \<in> set (labels ?c)" "cfg_id (?g ! a) = k" "attrs (?g ! a) = v"
          by simp_all
        then show ?thesis by blast
      qed
      show "a \<in> set (labels ?c) \<or> a \<in> P - {label}"
        if "length g0 \<le> a" "a < length ?g" "\<not> destroyed (?g ! a)" for a
      proof (cases "a = label")
        case True
        then show ?thesis by simp
      next
        case False
        with that other [OF False] I(6) [of a] show ?thesis by simp
      qed
      show "length g0 \<le> a \<and> a < length ?g" if "a \<in> P - {label}" for a
        using that I(7) [of a] by simp
    qed
  qed
qed

lemma each_label_frame:
  "geometry (fst (each_label env el idx ls st)) = geometry (fst st)
   \<and> coord (fst (each_label env el idx ls st)) = coord (fst st)
   \<and> lastLabelsCfgMap (fst (each_label env el idx ls st)) = lastLabelsCfgMap (fst st)"
  by (induction ls arbitrary: idx st) (simp_all add: adjust_and_keep_frame)

lemma each_label_inv:
  "draw_inv g0 P st \<Longrightarrow> distinct ls \<Longrightarrow> set ls \<subseteq> P \<Longrightarrow>
   draw_inv g0 (P - set ls) (each_label env el idx ls st)"
proof (induction ls arbitrary: idx st P)
  case Nil
  then show ?case by simp
next
  case (Cons label ls)
  from Cons.prems have "draw_inv g0 (P - {label}) (adjust_and_keep env el idx label st)"
    by (intro adjust_and_keep_inv) auto
  from Cons.IH [OF this, of "Suc idx"] Cons.prems
  have "draw_inv g0 (P - {label} - set ls) (each_label env el (Suc idx) ls (adjust_and_keep env el idx label st))"
    by auto
  moreover have "P - {label} - set ls = P - set (label # ls)" by auto
  ultimately show ?case by simp
qed

lemma drawLabelItems_result:
  "drawLabelItems env geom md idx items g = Inr (ls, g') \<Longrightarrow>
   ls = [length g..<length g + length items]
   \<and> length g' = length g + length items \<and> take (length g) g' = g
   \<and> (\<forall>a. length g \<le> a \<and> a < length g' \<longrightarrow> \<not> destroyed (g' ! a))"
proof (induction items arbitrary: idx g ls g')
  case Nil
  then show ?case by auto
next
  case (Cons at items)
  from Cons.prems obtain d where d: "dataItem_at md idx = Some d"
    by (auto split: option.splits)
  let ?g1 = "g @ [new_shape ''text'' at (getLabelId (toStr env) geom d) ''label'' (Some d)]"
  from Cons.prems d obtain ls1 where
    rest: "drawLabelItems env geom md (Suc idx) items ?g1 = Inr (ls1, g')" and ls: "ls = length g # ls1"
    by (auto simp: Let_def drawLabelText_def addShape_def split: sum.splits)
  from Cons.IH [OF rest] have IH: "ls1 = [length ?g1..<length ?g1 + length items]"
    "length g' = length ?g1 + length items" "take (length ?g1) g' = ?g1"
    "\<And>a. length ?g1 \<le> a \<Longrightarrow> a < length g' \<Longrightarrow> \<not> destroyed (g' ! a)"
    by blast+
  have t: "take (length g) g' = g"
  proof -
    have "take (length g) (take (length ?g1) g') = g" unfolding IH(3) by simp
    then show ?thesis by (simp add: min_def)
  qed
  have first: "g' ! length g = new_shape ''text'' at (getLabelId (toStr env) geom d) ''label'' (Some d)"
  proof -
    have "take (length ?g1) g' ! length g = ?g1 ! length g" unfolding IH(3) ..
    then show ?thesis by simp
  qed
  have nd: "\<not> destroyed (g' ! a)" if "length g \<le> a" "a < length g'" for a
  proof (cases "a = length g")
    case True
    then show ?thesis by (simp add: first new_shape_def)
  next
    case False
    with that IH(4) [of a] show ?thesis by simp
  qed
  have "[length g..<length g + Suc (length items)] =
          length g # [Suc (length g)..<length g + Suc (length items)]"
    by (rule upt_conv_Cons) simp
  moreover have "ls1 = [Suc (length g)..<length g + Suc (length items)]"
    unfolding IH(1) by (simp del: upt_Suc)
  ultimately have "ls = [length g..<length g + length (at # items)]"
    by (simp add: ls del: upt_Suc)
  with IH(2) t nd show ?case
    by simp
qed

lemma drawLabelItem_inv:
  assumes inv: "draw_inv g0 {} (c, g)" and drawn: "drawLabelItem env geom g el idx = Inr (ls, g')"
  shows "draw_inv g0 (set ls) (c, g')" and "distinct ls"
proof -
  note I = draw_invD [OF inv]
  from drawLabelItems_result [OF drawn [unfolded drawLabelItem_def]]
  have R: "ls = [length g..<length g + length (getLabelItemAttrs env el idx)]"
    "length g' = length g + length (getLabelItemAttrs env el idx)" "take (length g) g' = g"
    "\<And>a. length g \<le> a \<Longrightarrow> a < length g' \<Longrightarrow> \<not> destroyed (g' ! a)"
    by blast+
  show "distinct ls" unfolding R(1) by simp
  have old: "g' ! a = g ! a" if "a < length g" for a
  proof -
    have "take (length g) g' ! a = g' ! a" using that by simp
    then show ?thesis unfolding R(3) by simp
  qed
  show "draw_inv g0 (set ls) (c, g')"
  proof (rule draw_invI)
    show "distinct (map fst (labelsCfgMap c))" by (rule I(1))
    show "length g0 \<le> length g'" using I(2) R(2) by simp
    show "take (length g0) g' = g0"
    proof -
      have "take (length g0) (take (length g) g') = g0" unfolding R(3) by (rule I(3))
      with I(2) show ?thesis by (simp add: min_def)
    qed
    show "length g0 \<le> a \<and> a < length g' \<and> \<not> destroyed (g' ! a) \<and> a \<notin> set ls"
      if "a \<in> set (labels c)" for a
      using I(4) [OF that] old [of a] R(1,2) by simp
    show "\<exists>a\<in>set (labels c). cfg_id (g' ! a) = k \<and> attrs (g' ! a) = v"
      if "record_get (labelsCfgMap c) k = Some v" for k v
    proof -
      from I(5) [OF that] obtain a where a: "a \<in> set (labels c)" "cfg_id (g ! a) = k" "attrs (g ! a) = v"
        by blast
      from I(4) [OF a(1)] have "a < length g" by simp
      from old [OF this] a show ?thesis by (intro bexI [of _ a]) simp_all
    qed
    show "a \<in> set (labels c) \<or> a \<in> set ls"
      if "length g0 \<le> a" "a < length g'" "\<not> destroyed (g' ! a)" for a
    proof (cases "a < length g")
      case True
      with that old [OF True] I(6) [of a] show ?thesis by simp
    next
      case False
      with that R(1,2) show ?thesis by simp
    qed
    show "length g0 \<le> a \<and> a < length g'" if "a \<in> set ls" for a
      using that I(2) R(1,2) by simp
  qed
qed

lemma each_element_inv:
  "draw_inv g0 {} st \<Longrightarrow> each_element env idx es st = Inr st' \<Longrightarrow>
   draw_inv g0 {} st'
   \<and> geometry (fst st') = geometry (fst st) \<and> coord (fst st') = coord (fst st)
   \<and> lastLabelsCfgMap (fst st') = lastLabelsCfgMap (fst st)"
proof (induction es arbitrary: idx st)
  case Nil
  then show ?case by simp
next
  case (Cons el es)
  obtain c g where st: "st = (c, g)" by (cases st)
  from Cons.prems(2) obtain ls g1 where
    drawn: "drawLabelItem env (geometry c) g el idx = Inr (ls, g1)"
    and rest: "each_element env (Suc idx) es (each_label env el 0 ls (c, g1)) = Inr st'"
    by (auto simp: st split: sum.splits)
  from drawLabelItem_inv [OF Cons.prems(1) [unfolded st] drawn]
  have "draw_inv g0 (set ls) (c, g1)" "distinct ls" by simp_all
  from each_label_inv [OF this(1) this(2), of env el 0]
  have inv1: "draw_inv g0 {} (each_label env el 0 ls (c, g1))" by simp
  from Cons.IH [OF inv1 rest] each_label_frame [of env el 0 ls "(c, g1)"]
  show ?case by (simp add: st)
qed

lemma drawLabels_inv:
  assumes "drawLabels env this g0 = Inr st'"
  shows "draw_inv g0 {} st'"
    and "geometry (fst st') = geometry this" and "coord (fst st') = coord this"
    and "lastLabelsCfgMap (fst st') = lastLabelsCfgMap this"
proof -
  have "draw_inv g0 {} (this\<lparr>labels := [], labelsCfgMap := [], labelsCfgMap_proto := None\<rparr>, g0)"
    by (rule draw_invI) (simp_all add: record_get_def)
  from each_element_inv [OF this assms [unfolded drawLabels_def]]
  show "draw_inv g0 {} st'"
    and "geometry (fst st') = geometry this" and "coord (fst st') = coord this"
    and "lastLabelsCfgMap (fst st') = lastLabelsCfgMap this"
    by simp_all
qed

lemma renderInner_split:
  assumes "renderInner env this g0 = Inr result"
  obtains c1 g1 where "drawLabels env this g0 = Inr (c1, g1)" and "result = reconcile env c1 g1"
  using assms by (cases "drawLabels env this g0") (auto simp: renderInner_def)

lemma renderInner_keys_distinct:
  assumes "renderInner env this g0 = Inr result"
  shows "distinct (map fst (lastLabelsCfgMap (fst result)))"
proof -
  from assms obtain c1 g1 where drawn: "drawLabels env this g0 = Inr (c1, g1)"
    and result: "result = reconcile env c1 g1"
    by (rule renderInner_split)
  from draw_invD(1) [OF drawLabels_inv(1) [OF drawn]] show ?thesis
    by (simp add: result reconcile_this)
qed

lemma enough_items_0: "enough_items md 0"
  by (simp add: enough_items_def split: MappingData.splits)

lemma drawLabelItems_fails_iff:
  "enough_items md idx \<Longrightarrow>
   (\<exists>e. drawLabelItems env geom md idx items g = Inl e) \<longleftrightarrow> \<not> enough_items md (idx + length items)"
proof (induction items arbitrary: idx g)
  case Nil
  then show ?case by simp
next
  case (Cons at items)
  show ?case
  proof (cases "dataItem_at md idx")
    case None
    then show ?thesis
      by (auto simp: dataItem_at_def enough_items_def split: MappingData.splits if_splits)
  next
    case (Some d)
    let ?g1 = "snd (drawLabelText g at (getLabelId (toStr env) geom d) ''label'' d)"
    from Some have next': "enough_items md (Suc idx)"
      by (auto simp: dataItem_at_def enough_items_def split: MappingData.splits if_splits)
    have "(\<exists>e. drawLabelItems env geom md idx (at # items) g = Inl e) \<longleftrightarrow>
          (\<exists>e. drawLabelItems env geom md (Suc idx) items ?g1 = Inl e)"
      using Some by (auto simp: Let_def split: sum.splits)
    with Cons.IH [OF next', of ?g1] show ?thesis by simp
  qed
qed

lemma each_element_succeeds_iff:
  "(\<exists>st'. each_element env idx es st = Inr st') \<longleftrightarrow> aligned env idx es"
proof (induction es arbitrary: idx st)
  case Nil
  then show ?case by simp
next
  case (Cons el es)
  show ?case
  proof (cases "drawLabelItem env (geometry (fst st)) (snd st) el idx")
    case (Inl e)
    then have "\<not> enough_items (mappingData el) (length (getLabelItemAttrs env el idx))"
      using drawLabelItems_fails_iff [OF enough_items_0, of env "geometry (fst st)" "mappingData el"
          "getLabelItemAttrs env el idx" "snd st"]
      by (auto simp: drawLabelItem_def)
    with Inl show ?thesis by simp
  next
    case (Inr drawn)
    then have "enough_items (mappingData el) (length (getLabelItemAttrs env el idx))"
      using drawLabelItems_fails_iff [OF enough_items_0, of env "geometry (fst st)" "mappingData el"
          "getLabelItemAttrs env el idx" "snd st"]
      by (auto simp: drawLabelItem_def)
    with Inr Cons.IH show ?thesis by simp
  qed
qed

lemma renderInner_succeeds_iff:
  "(\<exists>result. renderInner env this g0 = Inr result) \<longleftrightarrow> aligned env 0 (elements (geometry this))"
proof -
  have "(\<exists>result. renderInner env this g0 = Inr result) \<longleftrightarrow> (\<exists>st'. drawLabels env this g0 = Inr st')"
    by (cases "drawLabels env this g0") (simp_all add: renderInner_def del: split_paired_Ex)
  also have "\<dots> \<longleftrightarrow> aligned env 0 (elements (geometry this))"
    unfolding drawLabels_def by (rule each_element_succeeds_iff)
  finally show ?thesis .
qed

lemma aligned_adjustLabel: "aligned (env\<lparr>adjustLabel := f\<rparr>) idx es = aligned env idx es"
  by (induction es arbitrary: idx) simp_all


section \<open>The example passes\<close>

text \<open>The examples, evaluated: what drawing produces for each chart type, and two whole
  passes.\<close>

lemmas example_defs =
  example_this_def example_env_def example_cfgs_def line_geometry_def drawn_this_def
  drawn_group_def row_1991_def row_1992_def row_def new_shape_def

lemmas run_defs =
  renderInner_def drawLabels_def drawLabelItem_def dataItem_at_def getLabelId_def
  drawLabelText_def addShape_def adjust_and_keep_def Let_def reconcile_def update_phase_def
  update_or_appear_def leave_step_def resolve_animateCfg_def get_cfg_def findById_def
  is_live_def doAnimate_def shape_attr_def attr_merge_def record_get_def record_set_def
  record_delete_def key_precedes_def is_array_index_def is_digit_def ToString_def upt_rec
  obj_get_def obj_assign_def is_truthy_def attr_argument_def object_prototype_names_def

lemma findById_drawn:
  "findById drawn_group ''line-Lon 1991'' = Some 0"
  "findById drawn_group ''line-Lon 1992'' = Some 1"
  "findById drawn_group ''line-Lon 1990'' = None"
  by (simp_all add: findById_def drawn_group_def new_shape_def is_live_def upt_rec)

lemma example_drawn: "drawLabels example_env example_this [] = Inr (drawn_this, drawn_group)"
  by (simp add: drawLabels_def example_this_def example_env_def line_geometry_def drawLabelItem_def
      dataItem_at_def getLabelId_def drawLabelText_def addShape_def adjust_and_keep_def Let_def
      new_shape_def row_1991_def row_1992_def row_def record_get_def ToString_def obj_assign_def
      record_set_def key_precedes_def is_array_index_def is_digit_def drawn_this_def drawn_group_def)

lemma detaching_drawn: "drawLabels detaching_env example_this [] = Inr (drawn_this, detached_group)"
  by (simp add: drawLabels_def example_this_def example_env_def detaching_env_def line_geometry_def
      drawLabelItem_def dataItem_at_def getLabelId_def drawLabelText_def addShape_def
      adjust_and_keep_def Let_def new_shape_def row_1991_def row_1992_def row_def record_get_def
      ToString_def record_set_def key_precedes_def is_array_index_def is_digit_def drawn_this_def
      detached_group_def obj_assign_def)

lemma destroying_run:
  "renderInner destroying_env example_this [] =
     Inr (example_this\<lparr>labels := [0],
            labelsCfgMap := [(''line-Lon 1991'', [(''x'', JSNumber 20)])],
            lastLabelsCfgMap := [(''line-Lon 1991'', [(''x'', JSNumber 20)])]\<rparr>,
          [new_shape ''text'' [(''x'', JSNumber 10)] ''line-Lon 1991'' ''label'' (Some row_1991),
           (new_shape ''text'' [(''x'', JSNumber 30)] ''line-Lon 1992'' ''label'' (Some row_1992))
             \<lparr>has_parent := False, destroyed := True\<rparr>,
           new_shape ''text'' [(''x'', JSNumber 5)] ''line-Lon 1990'' ''label'' None],
          [\<lparr>shape = 0,
            shape_state = new_shape ''text'' [(''x'', JSNumber 10)] ''line-Lon 1991'' ''label'' (Some row_1991),
            animateCfg = ''position-update'', toAttrs = Some [(''x'', JSNumber 20)], coordinate = ()\<rparr>,
           \<lparr>shape = 2,
            shape_state = new_shape ''text'' [(''x'', JSNumber 5)] ''line-Lon 1990'' ''label'' None,
            animateCfg = ''fade-out'', toAttrs = None, coordinate = ()\<rparr>])"
  by (simp add: run_defs destroying_env_def example_defs)

lemma quiet_run:
  "renderInner quiet_env example_this [] =
     Inr (drawn_this\<lparr>lastLabelsCfgMap := labelsCfgMap drawn_this\<rparr>, drawn_group, [])"
  by (simp add: run_defs quiet_env_def example_defs)

lemma findById_detached:
  "findById detached_group ''line-Lon 1991'' = None"
  "findById detached_group ''line-Lon 1992'' = None"
  by (simp_all add: findById_def detached_group_def new_shape_def is_live_def upt_rec)

lemma bar_run:
  "renderInner bar_env bar_this [] =
     Inr (bar_this\<lparr>labels := [0],
            labelsCfgMap := [(''constructor'', [(''x'', JSNumber 20)])],
            lastLabelsCfgMap := [(''constructor'', [(''x'', JSNumber 20)])]\<rparr>,
          [new_shape ''text'' [(''x'', JSNumber 20)] ''constructor'' ''label''
             (Some (row (JSString ''constructor'') (JSNumber 3) (JSString ''Lon'')))],
          [\<lparr>shape = 0,
            shape_state = new_shape ''text'' [(''x'', JSNumber 20)] ''constructor'' ''label''
              (Some (row (JSString ''constructor'') (JSNumber 3) (JSString ''Lon''))),
            animateCfg = ''position-update'', toAttrs = Some [(''x'', JSNumber 20)],
            coordinate = ()\<rparr>])"
  by (simp add: run_defs bar_env_def bar_this_def bar_geometry_def example_env_def
      example_cfgs_def row_def new_shape_def)

lemma no_appear_run:
  "renderInner no_appear_env bar_this [] =
     Inr (bar_this\<lparr>labels := [0],
            labelsCfgMap := [(''constructor'', [(''x'', JSNumber 20)])],
            lastLabelsCfgMap := [(''constructor'', [(''x'', JSNumber 20)])]\<rparr>,
          [new_shape ''text'' [(''x'', JSNumber 20)] ''constructor'' ''label''
             (Some (row (JSString ''constructor'') (JSNumber 3) (JSString ''Lon'')))],
          [\<lparr>shape = 0,
            shape_state = new_shape ''text'' [(''x'', JSNumber 20)] ''constructor'' ''label''
              (Some (row (JSString ''constructor'') (JSNumber 3) (JSString ''Lon''))),
            animateCfg = ''position-update'', toAttrs = Some [(''x'', JSNumber 20)],
            coordinate = ()\<rparr>])"
  by (simp add: run_defs no_appear_env_def bar_env_def bar_this_def bar_geometry_def example_env_def
      example_cfgs_def row_def new_shape_def)


section \<open>Reconciliation: update, leave and appear\<close>

lemma filter_key_none:
  "record_get l i = None \<Longrightarrow> filter (\<lambda>e. fst e = i) l = []"
  by (auto simp: record_get_None_iff filter_empty_conv)

lemma transient_shapes_for:
  "filter (\<lambda>s. cfg_id s = i) (map (\<lambda>e. new_shape ''text'' (snd e) (fst e) ''label'' None) l) =
     map (\<lambda>e. new_shape ''text'' (snd e) (fst e) ''label'' None) (filter (\<lambda>e. fst e = i) l)"
  by (simp add: filter_map o_def new_shape_def)

lemma step_matched:
  assumes "record_get l i = Some old"
  shows "snd (snd (update_or_appear env p cfg co (i, at) (l, g, []))) =
     (case findById g i of None \<Rightarrow> []
      | Some a \<Rightarrow>
          (case get_cfg cfg update of None \<Rightarrow> []
           | Some u \<Rightarrow>
               [\<lparr>shape = a, shape_state = (g ! a)\<lparr>attrs := attr_merge old (attrs (g ! a))\<rparr>,
                 animateCfg = u, toAttrs = Some at, coordinate = co\<rparr>]))"
proof (cases "findById g i")
  case None
  then show ?thesis by (simp add: step_missing)
next
  case (Some a)
  show ?thesis
  proof (cases "get_cfg cfg update")
    case None
    with Some show ?thesis by (simp add: step_update_off [OF assms])
  next
    case u: (Some u)
    with Some show ?thesis by (simp add: step_update [OF Some assms u])
  qed
qed

text \<open>
  Claim C1.  Every identity of the previous map is classified exactly once in a pass, as
  update or as leave, never as both and never as neither.

  If the identity is also in the current map it is an update: it is one key of the current
  map, so the first loop visits it once, and it is no longer in the outstanding previous map
  when that loop is over, so the second loop does not visit it.  All the pass does for it is
  the update: when its shape is found and an update spec is configured, the calls of the pass
  for the identity are the one update call, on the shape set back to the previous attributes
  and with the current attributes as target; otherwise there is none.  No transient shape
  with that identity is added.

  If the identity is not in the current map it is a leave: the first loop does not visit it,
  it is one key of the outstanding previous map, so the second loop visits it once.  All the
  pass does for it is the leave: when a leave spec is configured, one transient shape with
  the identity and the previous attributes is added and the calls of the pass for the
  identity are the one leave call on that shape, with no target; otherwise there is neither.
\<close>

theorem previous_identity_classified_once:
  assumes "distinct (map fst (labelsCfgMap this))"
    and "distinct (map fst (lastLabelsCfgMap this))"
    and "record_get (lastLabelsCfgMap this) i = Some oldAttrs"
  shows "(case record_get (labelsCfgMap this) i of
            Some attrs' \<Rightarrow>
              count_list (map fst (labelsCfgMap this)) i = 1
              \<and> count_list (map fst (fst (update_phase env this g))) i = 0
              \<and> calls_for i (snd (snd (reconcile env this g))) =
                  (case findById g i of None \<Rightarrow> []
                   | Some a \<Rightarrow>
                       (case get_cfg (resolve_animateCfg env this) update of None \<Rightarrow> []
                        | Some updateAnimateCfg \<Rightarrow>
                            [\<lparr>shape = a,
                              shape_state = (g ! a)\<lparr>attrs := attr_merge oldAttrs (attrs (g ! a))\<rparr>,
                              animateCfg = updateAnimateCfg, toAttrs = Some attrs',
                              coordinate = coord this\<rparr>]))
              \<and> filter (\<lambda>s. cfg_id s = i) (drop (length g) (fst (snd (reconcile env this g)))) = []
          | None \<Rightarrow>
              count_list (map fst (labelsCfgMap this)) i = 0
              \<and> count_list (map fst (fst (update_phase env this g))) i = 1
              \<and> record_get (fst (update_phase env this g)) i = Some oldAttrs
              \<and> calls_for i (snd (snd (reconcile env this g))) =
                  (case get_cfg (resolve_animateCfg env this) leave of None \<Rightarrow> []
                   | Some leaveAnimateCfg \<Rightarrow>
                       [\<lparr>shape = length g
                            + length (takeWhile (\<lambda>e. fst e \<noteq> i) (fst (update_phase env this g))),
                         shape_state = new_shape ''text'' oldAttrs i ''label'' None,
                         animateCfg = leaveAnimateCfg, toAttrs = None, coordinate = coord this\<rparr>])
              \<and> filter (\<lambda>s. cfg_id s = i) (drop (length g) (fst (snd (reconcile env this g)))) =
                  (case get_cfg (resolve_animateCfg env this) leave of None \<Rightarrow> []
                   | Some leaveAnimateCfg \<Rightarrow> [new_shape ''text'' oldAttrs i ''label'' None]))"
proof (cases "record_get (labelsCfgMap this) i")
  case None
  have out: "record_get (fst (update_phase env this g)) i = Some oldAttrs"
    using None assms(3) by (simp add: outstanding_get record_get_None_iff)
  then have out': "map_of (fst (update_phase env this g)) i = Some oldAttrs"
    by (simp add: record_get_def)
  have added: "filter (\<lambda>s. cfg_id s = i) (drop (length g) (fst (snd (reconcile env this g)))) =
                  (case get_cfg (resolve_animateCfg env this) leave of None \<Rightarrow> []
                   | Some leaveAnimateCfg \<Rightarrow> [new_shape ''text'' oldAttrs i ''label'' None])"
    by (simp add: reconcile_added transient_shapes_for
        filter_key_unique [OF outstanding_distinct [OF assms(2)] out'] split: option.splits)
  have calls: "calls_for i (snd (snd (reconcile env this g))) =
                  (case get_cfg (resolve_animateCfg env this) leave of None \<Rightarrow> []
                   | Some leaveAnimateCfg \<Rightarrow>
                       [\<lparr>shape = length g
                            + length (takeWhile (\<lambda>e. fst e \<noteq> i) (fst (update_phase env this g))),
                         shape_state = new_shape ''text'' oldAttrs i ''label'' None,
                         animateCfg = leaveAnimateCfg, toAttrs = None, coordinate = coord this\<rparr>])"
    by (simp add: reconcile_calls [OF assms(1,2)] None assms(3) split: option.splits)
  have counts: "count_list (map fst (labelsCfgMap this)) i = 0"
    "count_list (map fst (fst (update_phase env this g))) i = 1"
    using None out
    by (simp_all add: count_keys [OF assms(1)] count_keys [OF outstanding_distinct [OF assms(2)]])
  from counts out calls added show ?thesis
    unfolding None by simp
next
  case (Some attrs')
  then have "i \<in> fst ` set (labelsCfgMap this)"
    using record_get_None_iff [of "labelsCfgMap this" i] by simp
  then have out: "record_get (fst (update_phase env this g)) i = None"
    by (simp add: outstanding_get)
  have added: "filter (\<lambda>s. cfg_id s = i) (drop (length g) (fst (snd (reconcile env this g)))) = []"
    by (simp add: reconcile_added transient_shapes_for filter_key_none [OF out]
        split: option.splits)
  have calls: "calls_for i (snd (snd (reconcile env this g))) =
                  (case findById g i of None \<Rightarrow> []
                   | Some a \<Rightarrow>
                       (case get_cfg (resolve_animateCfg env this) update of None \<Rightarrow> []
                        | Some updateAnimateCfg \<Rightarrow>
                            [\<lparr>shape = a,
                              shape_state = (g ! a)\<lparr>attrs := attr_merge oldAttrs (attrs (g ! a))\<rparr>,
                              animateCfg = updateAnimateCfg, toAttrs = Some attrs',
                              coordinate = coord this\<rparr>]))"
    by (simp add: reconcile_calls [OF assms(1,2)] Some step_matched [OF assms(3)])
  have counts: "count_list (map fst (labelsCfgMap this)) i = 1"
    "count_list (map fst (fst (update_phase env this g))) i = 0"
    using Some out
    by (simp_all add: count_keys [OF assms(1)] count_keys [OF outstanding_distinct [OF assms(2)]])
  from counts calls added show ?thesis
    unfolding Some by simp
qed

theorem previous_identity_classified_once_witness:
  "count_list (map fst (labelsCfgMap drawn_this)) ''line-Lon 1991'' = 1
   \<and> count_list (map fst (fst (update_phase example_env drawn_this drawn_group))) ''line-Lon 1991'' = 0
   \<and> calls_for ''line-Lon 1991'' (snd (snd (reconcile example_env drawn_this drawn_group))) =
       [\<lparr>shape = 0,
         shape_state = new_shape ''text'' [(''x'', JSNumber 10)] ''line-Lon 1991'' ''label'' (Some row_1991),
         animateCfg = ''position-update'', toAttrs = Some [(''x'', JSNumber 20)], coordinate = ()\<rparr>]
   \<and> filter (\<lambda>s. cfg_id s = ''line-Lon 1991'')
       (drop 2 (fst (snd (reconcile example_env drawn_this drawn_group)))) = []
   \<and> count_list (map fst (labelsCfgMap drawn_this)) ''line-Lon 1990'' = 0
   \<and> count_list (map fst (fst (update_phase example_env drawn_this drawn_group))) ''line-Lon 1990'' = 1
   \<and> record_get (fst (update_phase example_env drawn_this drawn_group)) ''line-Lon 1990'' =
       Some [(''x'', JSNumber 5)]
   \<and> calls_for ''line-Lon 1990'' (snd (snd (reconcile example_env drawn_this drawn_group))) =
       [\<lparr>shape = 2,
         shape_state = new_shape ''text'' [(''x'', JSNumber 5)] ''line-Lon 1990'' ''label'' None,
         animateCfg = ''fade-out'', toAttrs = None, coordinate = ()\<rparr>]
   \<and> filter (\<lambda>s. cfg_id s = ''line-Lon 1990'')
       (drop 2 (fst (snd (reconcile example_env drawn_this drawn_group)))) =
       [new_shape ''text'' [(''x'', JSNumber 5)] ''line-Lon 1990'' ''label'' None]"
proof -
  have h: "distinct (map fst (labelsCfgMap drawn_this))"
    "distinct (map fst (lastLabelsCfgMap drawn_this))"
    by (simp_all add: example_defs)
  have p: "record_get (lastLabelsCfgMap drawn_this) ''line-Lon 1991'' = Some [(''x'', JSNumber 10)]"
    "record_get (lastLabelsCfgMap drawn_this) ''line-Lon 1990'' = Some [(''x'', JSNumber 5)]"
    by (simp_all add: example_defs record_get_def)
  have c: "record_get (labelsCfgMap drawn_this) ''line-Lon 1991'' = Some [(''x'', JSNumber 20)]"
    "record_get (labelsCfgMap drawn_this) ''line-Lon 1990'' = None"
    by (simp_all add: example_defs record_get_def)
  have cfgs: "get_cfg (resolve_animateCfg example_env drawn_this) update = Some ''position-update''"
    "get_cfg (resolve_animateCfg example_env drawn_this) leave = Some ''fade-out''"
    by (simp_all add: get_cfg_resolve example_defs)
  have m: "attr_merge [(''x'', JSNumber 10)] [(''x'', JSNumber 20)] = [(''x'', JSNumber 10)]"
    by (simp add: attr_merge_def record_set_def)
  have g: "length drawn_group = 2" "coord drawn_this = ()"
    "(drawn_group ! 0)\<lparr>attrs := [(''x'', JSNumber 10)]\<rparr> =
       new_shape ''text'' [(''x'', JSNumber 10)] ''line-Lon 1991'' ''label'' (Some row_1991)"
    "attrs (drawn_group ! 0) = [(''x'', JSNumber 20)]"
    by (simp_all add: drawn_group_def new_shape_def)
  have pos: "length (takeWhile (\<lambda>e. fst e \<noteq> ''line-Lon 1990'')
               (fst (update_phase example_env drawn_this drawn_group))) = 0"
    by (simp add: update_phase_outstanding example_defs)
  show ?thesis
    using previous_identity_classified_once [OF h p(1), of example_env drawn_group]
      previous_identity_classified_once [OF h p(2), of example_env drawn_group]
    by (simp add: c cfgs findById_drawn m g pos)
qed

text \<open>
  Claim C2.  With animation on and an update spec configured, an identity that is in the
  previous and in the current map, and whose shape is found in the group, gets exactly one
  animation call in the pass: the update call, issued on the shape after its attributes were
  set back to those of the previous pass, with the attributes of the current pass as target.
  No other call, appear or leave, is issued for that identity.
\<close>

theorem update_resets_then_animates:
  assumes "distinct (map fst (labelsCfgMap this))"
    and "distinct (map fst (lastLabelsCfgMap this))"
    and "record_get (lastLabelsCfgMap this) i = Some oldAttrs"
    and "distinct (map fst oldAttrs)"
    and "record_get (labelsCfgMap this) i = Some attrs'"
    and "animateOption (geometry this)"
    and "update (getDefaultAnimateCfg env ''label'' (coord this)) = Some updateAnimateCfg"
    and "findById g i = Some a"
  shows "calls_for i (snd (snd (reconcile env this g))) =
           [\<lparr>shape = a,
             shape_state = (g ! a)\<lparr>attrs := attr_merge oldAttrs (attrs (g ! a))\<rparr>,
             animateCfg = updateAnimateCfg, toAttrs = Some attrs', coordinate = coord this\<rparr>]
         \<and> fst (snd (reconcile env this g)) ! a = (g ! a)\<lparr>attrs := attr_merge oldAttrs (attrs (g ! a))\<rparr>
         \<and> (\<forall>k v. record_get oldAttrs k = Some v \<longrightarrow>
               record_get (attrs (fst (snd (reconcile env this g)) ! a)) k = Some v)"
proof -
  have cfg: "get_cfg (resolve_animateCfg env this) update = Some updateAnimateCfg"
    using assms(6,7) by (simp add: get_cfg_resolve)
  have a: "a < length g" "cfg_id (g ! a) = i"
    using findById_SomeD [OF assms(8)] by simp_all
  note step = step_update [OF assms(8) assms(3) cfg, of env "lastLabelsCfgMap_proto this"
      "coord this" attrs']
  have calls: "calls_for i (snd (snd (reconcile env this g))) =
           [\<lparr>shape = a,
             shape_state = (g ! a)\<lparr>attrs := attr_merge oldAttrs (attrs (g ! a))\<rparr>,
             animateCfg = updateAnimateCfg, toAttrs = Some attrs', coordinate = coord this\<rparr>]"
    by (simp add: reconcile_calls [OF assms(1,2)] assms(5) step)
  have shape': "fst (snd (reconcile env this g)) ! a = (g ! a)\<lparr>attrs := attr_merge oldAttrs (attrs (g ! a))\<rparr>"
    by (simp add: reconcile_nth a update_phase_nth [OF assms(1)] assms(5) step nth_shape_attr_same)
  show ?thesis
    unfolding shape' using calls by (simp add: attr_merge_get [OF assms(4)])
qed

theorem update_resets_then_animates_witness:
  "calls_for ''line-Lon 1991'' (snd (snd (reconcile example_env drawn_this drawn_group))) =
     [\<lparr>shape = 0,
       shape_state = new_shape ''text'' [(''x'', JSNumber 10)] ''line-Lon 1991'' ''label'' (Some row_1991),
       animateCfg = ''position-update'', toAttrs = Some [(''x'', JSNumber 20)], coordinate = ()\<rparr>]
   \<and> fst (snd (reconcile example_env drawn_this drawn_group)) ! 0 =
       new_shape ''text'' [(''x'', JSNumber 10)] ''line-Lon 1991'' ''label'' (Some row_1991)"
proof -
  have h: "distinct (map fst (labelsCfgMap drawn_this))"
    "distinct (map fst (lastLabelsCfgMap drawn_this))"
    "record_get (lastLabelsCfgMap drawn_this) ''line-Lon 1991'' = Some [(''x'', JSNumber 10)]"
    "distinct (map fst [(''x'', JSNumber 10)])"
    "record_get (labelsCfgMap drawn_this) ''line-Lon 1991'' = Some [(''x'', JSNumber 20)]"
    "animateOption (geometry drawn_this)"
    "update (getDefaultAnimateCfg example_env ''label'' (coord drawn_this)) = Some ''position-update''"
    by (simp_all add: example_defs record_get_def)
  have m: "attr_merge [(''x'', JSNumber 10)] [(''x'', JSNumber 20)] = [(''x'', JSNumber 10)]"
    by (simp add: attr_merge_def record_set_def)
  show ?thesis
    using update_resets_then_animates [OF h findById_drawn(1)]
    by (simp add: example_defs m)
qed

text \<open>
  Claim C3.  With animation on and a leave spec configured, an identity that is in the
  previous map only gets one transient text shape, added to the group with that identity and
  the attributes of the previous pass, and exactly one animation call, on that shape, with
  \<open>toAttrs = null\<close>.  When the pass is over the identity is not in the map that is the
  previous map of the next pass.
\<close>

theorem leave_adds_transient_shape:
  assumes "distinct (map fst (labelsCfgMap this))"
    and "distinct (map fst (lastLabelsCfgMap this))"
    and "record_get (lastLabelsCfgMap this) i = Some oldAttrs"
    and "record_get (labelsCfgMap this) i = None"
    and "animateOption (geometry this)"
    and "leave (getDefaultAnimateCfg env ''label'' (coord this)) = Some leaveAnimateCfg"
  shows "\<exists>a. length g \<le> a \<and> a < length (fst (snd (reconcile env this g)))
           \<and> fst (snd (reconcile env this g)) ! a = new_shape ''text'' oldAttrs i ''label'' None
           \<and> calls_for i (snd (snd (reconcile env this g))) =
               [\<lparr>shape = a, shape_state = new_shape ''text'' oldAttrs i ''label'' None,
                 animateCfg = leaveAnimateCfg, toAttrs = None, coordinate = coord this\<rparr>]
           \<and> filter (\<lambda>s. cfg_id s = i) (drop (length g) (fst (snd (reconcile env this g)))) =
               [new_shape ''text'' oldAttrs i ''label'' None]
           \<and> record_get (lastLabelsCfgMap (fst (reconcile env this g))) i = None"
proof -
  let ?out = "fst (update_phase env this g)"
  let ?n = "length (takeWhile (\<lambda>e. fst e \<noteq> i) ?out)"
  let ?temp = "\<lambda>e. new_shape ''text'' (snd e) (fst e) ''label'' (None :: 'a MappingDatum option)"
  have cfg: "get_cfg (resolve_animateCfg env this) leave = Some leaveAnimateCfg"
    using assms(5,6) by (simp add: get_cfg_resolve)
  have "i \<notin> fst ` set (labelsCfgMap this)"
    using assms(4) by (simp add: record_get_None_iff)
  then have out: "map_of ?out i = Some oldAttrs"
    using outstanding_get [of env this g i] assms(3) by (simp add: record_get_def)
  from first_key_position [OF out] have n: "?n < length ?out" "?out ! ?n = (i, oldAttrs)"
    by simp_all
  have grp: "fst (snd (reconcile env this g)) = fst (snd (update_phase env this g)) @ map ?temp ?out"
    by (simp add: reconcile_group cfg)
  have len: "length g + ?n < length (fst (snd (reconcile env this g)))"
    using n(1) by (simp add: grp update_phase_length)
  have nth: "fst (snd (reconcile env this g)) ! (length g + ?n) = new_shape ''text'' oldAttrs i ''label'' None"
    using n by (simp add: grp nth_append update_phase_length)
  have calls: "calls_for i (snd (snd (reconcile env this g))) =
               [\<lparr>shape = length g + ?n, shape_state = new_shape ''text'' oldAttrs i ''label'' None,
                 animateCfg = leaveAnimateCfg, toAttrs = None, coordinate = coord this\<rparr>]"
    by (simp add: reconcile_calls [OF assms(1,2)] assms(3,4) cfg)
  have "filter (\<lambda>s. cfg_id s = i) (map ?temp ?out) = map ?temp (filter (\<lambda>e. fst e = i) ?out)"
    by (simp add: filter_map o_def new_shape_def)
  also have "\<dots> = [new_shape ''text'' oldAttrs i ''label'' None]"
    by (simp add: filter_key_unique [OF outstanding_distinct [OF assms(2)] out])
  finally have added: "filter (\<lambda>s. cfg_id s = i) (drop (length g) (fst (snd (reconcile env this g)))) =
               [new_shape ''text'' oldAttrs i ''label'' None]"
    by (simp add: reconcile_added cfg)
  have next': "record_get (lastLabelsCfgMap (fst (reconcile env this g))) i = None"
    by (simp add: reconcile_this assms(4))
  from len nth calls added next' show ?thesis
    by (intro exI [of _ "length g + ?n"]) simp
qed

theorem leave_adds_transient_shape_witness:
  "\<exists>a. 2 \<le> a \<and> a < length (fst (snd (reconcile example_env drawn_this drawn_group)))
     \<and> fst (snd (reconcile example_env drawn_this drawn_group)) ! a =
         new_shape ''text'' [(''x'', JSNumber 5)] ''line-Lon 1990'' ''label'' None
     \<and> calls_for ''line-Lon 1990'' (snd (snd (reconcile example_env drawn_this drawn_group))) =
         [\<lparr>shape = a, shape_state = new_shape ''text'' [(''x'', JSNumber 5)] ''line-Lon 1990'' ''label'' None,
           animateCfg = ''fade-out'', toAttrs = None, coordinate = ()\<rparr>]
     \<and> filter (\<lambda>s. cfg_id s = ''line-Lon 1990'')
         (drop 2 (fst (snd (reconcile example_env drawn_this drawn_group)))) =
         [new_shape ''text'' [(''x'', JSNumber 5)] ''line-Lon 1990'' ''label'' None]
     \<and> record_get (lastLabelsCfgMap (fst (reconcile example_env drawn_this drawn_group))) ''line-Lon 1990'' = None"
proof -
  have h: "distinct (map fst (labelsCfgMap drawn_this))"
    "distinct (map fst (lastLabelsCfgMap drawn_this))"
    "record_get (lastLabelsCfgMap drawn_this) ''line-Lon 1990'' = Some [(''x'', JSNumber 5)]"
    "record_get (labelsCfgMap drawn_this) ''line-Lon 1990'' = None"
    "animateOption (geometry drawn_this)"
    "leave (getDefaultAnimateCfg example_env ''label'' (coord drawn_this)) = Some ''fade-out''"
    by (simp_all add: example_defs record_get_def)
  have "length drawn_group = 2" "coord drawn_this = ()"
    by (simp_all add: drawn_group_def)
  then show ?thesis
    using leave_adds_transient_shape [OF h, of drawn_group] by simp
qed

lemma appear_when_nothing_is_read:
  assumes "distinct (map fst (labelsCfgMap this))"
    and "distinct (map fst (lastLabelsCfgMap this))"
    and "\<not> is_truthy (truthy env)
           (obj_get record_get (lastLabelsCfgMap this) (lastLabelsCfgMap_proto this) i)"
    and "record_get (labelsCfgMap this) i = Some attrs'"
    and "animateOption (geometry this)"
    and "appear (getDefaultAnimateCfg env ''label'' (coord this)) = Some appearAnimateCfg"
    and "findById g i = Some a"
  shows "calls_for i (snd (snd (reconcile env this g))) =
           [\<lparr>shape = a, shape_state = g ! a, animateCfg = appearAnimateCfg,
             toAttrs = Some (attrs (g ! a)), coordinate = coord this\<rparr>]
         \<and> fst (snd (reconcile env this g)) ! a = g ! a"
proof -
  have cfg: "get_cfg (resolve_animateCfg env this) appear = Some appearAnimateCfg"
    using assms(5,6) by (simp add: get_cfg_resolve)
  have a: "a < length g" "cfg_id (g ! a) = i"
    using findById_SomeD [OF assms(7)] by simp_all
  note step = step_appear [OF assms(7) assms(3) cfg, of "coord this" attrs']
  show ?thesis
    by (simp add: reconcile_calls [OF assms(1,2)] assms(4) step reconcile_nth a
        update_phase_nth [OF assms(1)])
qed

lemma appear_of_plain_identity:
  "calls_for ''line-Lon 1992'' (snd (snd (reconcile example_env drawn_this drawn_group))) =
     [\<lparr>shape = 1,
       shape_state = new_shape ''text'' [(''x'', JSNumber 30)] ''line-Lon 1992'' ''label'' (Some row_1992),
       animateCfg = ''fade-in'', toAttrs = Some [(''x'', JSNumber 30)], coordinate = ()\<rparr>]"
proof -
  have h: "distinct (map fst (labelsCfgMap drawn_this))"
    "distinct (map fst (lastLabelsCfgMap drawn_this))"
    "\<not> is_truthy (truthy example_env)
       (obj_get record_get (lastLabelsCfgMap drawn_this) (lastLabelsCfgMap_proto drawn_this)
          ''line-Lon 1992'')"
    "record_get (labelsCfgMap drawn_this) ''line-Lon 1992'' = Some [(''x'', JSNumber 30)]"
    "animateOption (geometry drawn_this)"
    "appear (getDefaultAnimateCfg example_env ''label'' (coord drawn_this)) = Some ''fade-in''"
    by (simp_all add: example_defs record_get_def obj_get_def is_truthy_def
        object_prototype_names_def)
  show ?thesis
    using appear_when_nothing_is_read [OF h findById_drawn(2)]
    by (simp add: example_defs)
qed

text \<open>
  Claim C4.  With animation on and an appear spec configured, an identity that is in the
  current map only gets exactly one animation call in the pass, the appear call, whose target
  is the attributes its shape already carries, and no update and no leave call.

  The pass does so when the read \<open>lastLabelsCfgMap[id]\<close> gives a falsy value
  (\<open>appear_when_nothing_is_read\<close>).  The read goes through the prototype of the previous map,
  though, and the test of it is one of truthiness, so it does not do so for an identity that
  names a member of \<open>Object.prototype\<close>.  In the first pass of a bar chart whose one category
  is \<open>constructor\<close> both maps start empty, the identity \<open>constructor\<close> is in the current map
  only, an appear spec is configured, and the one call of the pass is the update call: the
  shape is handled as updated although it is newly drawn.
\<close>

theorem prototype_name_appears_as_update:
  "lastLabelsCfgMap bar_this = []
   \<and> animateOption (geometry bar_this)
   \<and> appear (getDefaultAnimateCfg bar_env ''label'' (coord bar_this)) = Some ''fade-in''
   \<and> update (getDefaultAnimateCfg bar_env ''label'' (coord bar_this)) = Some ''position-update''
   \<and> renderInner bar_env bar_this [] =
       Inr (bar_this\<lparr>labels := [0],
              labelsCfgMap := [(''constructor'', [(''x'', JSNumber 20)])],
              lastLabelsCfgMap := [(''constructor'', [(''x'', JSNumber 20)])]\<rparr>,
            [new_shape ''text'' [(''x'', JSNumber 20)] ''constructor'' ''label''
               (Some (row (JSString ''constructor'') (JSNumber 3) (JSString ''Lon'')))],
            [\<lparr>shape = 0,
              shape_state = new_shape ''text'' [(''x'', JSNumber 20)] ''constructor'' ''label''
                (Some (row (JSString ''constructor'') (JSNumber 3) (JSString ''Lon''))),
              animateCfg = ''position-update'', toAttrs = Some [(''x'', JSNumber 20)],
              coordinate = ()\<rparr>])"
  using bar_run
  by (simp add: bar_this_def bar_env_def bar_geometry_def example_env_def example_cfgs_def)


section \<open>The identity resolver: what it computes\<close>

text \<open>
  Claim C5, as stated, fails: two rows of one line series whose x-field values differ as
  values, the number \<open>1991\<close> and the string \<open>1991\<close>, are distinct labels and resolve to the
  same identity, because only the string form of the value enters the identity.
\<close>

theorem getLabelId_collision:
  "row (JSNumber 1991) (JSNumber 3) (JSString ''Lon'') \<noteq> row (JSString ''1991'') (JSNumber 4) (JSString ''Lon'')
   \<and> getElementId line_geometry (row (JSNumber 1991) (JSNumber 3) (JSString ''Lon''))
       = getElementId line_geometry (row (JSString ''1991'') (JSNumber 4) (JSString ''Lon''))
   \<and> record_get (origin (row (JSNumber 1991) (JSNumber 3) (JSString ''Lon''))) (xScale_field line_geometry)
       \<noteq> record_get (origin (row (JSString ''1991'') (JSNumber 4) (JSString ''Lon''))) (xScale_field line_geometry)
   \<and> getLabelId ToString line_geometry (row (JSNumber 1991) (JSNumber 3) (JSString ''Lon''))
       = getLabelId ToString line_geometry (row (JSString ''1991'') (JSNumber 4) (JSString ''Lon''))"
  by (simp add: getLabelId_def line_geometry_def row_def ToString_def record_get_def decimal.simps)

text \<open>
  Claim C5, amended.  The resolver is a function of the geometry kind, the base identity and
  the string forms of the x-field and y-field values, and of nothing else; and for a line or
  an area geometry two data items that share a base identity and whose x-field values have
  different string forms resolve to different identities.
\<close>

theorem getLabelId_pure_and_separating:
  "(geom_type g = geom_type g' \<and> getElementId g d = getElementId g' d'
      \<and> str (record_get (origin d) (xScale_field g)) = str (record_get (origin d') (xScale_field g'))
      \<and> str (record_get (origin d) (yScale_field g)) = str (record_get (origin d') (yScale_field g'))
     \<longrightarrow> getLabelId str g d = getLabelId str g' d')
   \<and> ((geom_type g = ''line'' \<or> geom_type g = ''area'') \<and> getElementId g d1 = getElementId g d2
      \<and> str (record_get (origin d1) (xScale_field g)) \<noteq> str (record_get (origin d2) (xScale_field g))
     \<longrightarrow> getLabelId str g d1 \<noteq> getLabelId str g d2)"
  by (auto simp: getLabelId_def Let_def)

theorem getLabelId_pure_and_separating_witness:
  "getLabelId ToString line_geometry (row (JSString ''1991'') (JSNumber 3) (JSString ''Lon''))
     = getLabelId ToString line_geometry (row (JSString ''1991'') (JSNumber 3) (JSString ''Lon''))
   \<and> getLabelId ToString line_geometry (row (JSString ''1991'') (JSNumber 3) (JSString ''Lon''))
     \<noteq> getLabelId ToString line_geometry (row (JSString ''1992'') (JSNumber 4) (JSString ''Lon''))"
  using getLabelId_pure_and_separating [of line_geometry line_geometry
      "row (JSString ''1991'') (JSNumber 3) (JSString ''Lon'')" "row (JSString ''1991'') (JSNumber 3) (JSString ''Lon'')"
      ToString "row (JSString ''1991'') (JSNumber 3) (JSString ''Lon'')" "row (JSString ''1992'') (JSNumber 4) (JSString ''Lon'')"]
  by (simp add: line_geometry_def row_def ToString_def record_get_def)

text \<open>
  Claim C6.  For a line or an area geometry the identity is the element's base identity
  followed by a space and the x-field value; for a path geometry it is the base identity
  followed by a space, the x-field value, a hyphen and the y-field value; for every other
  geometry kind it is the base identity unchanged.
\<close>

theorem getLabelId_by_kind:
  "(geom_type g = ''line'' \<or> geom_type g = ''area'' \<longrightarrow>
      getLabelId str g d = getElementId g d @ '' '' @ str (record_get (origin d) (xScale_field g)))
   \<and> (geom_type g = ''path'' \<longrightarrow>
      getLabelId str g d =
        getElementId g d @ '' '' @ str (record_get (origin d) (xScale_field g))
          @ ''-'' @ str (record_get (origin d) (yScale_field g)))
   \<and> (geom_type g \<noteq> ''line'' \<and> geom_type g \<noteq> ''area'' \<and> geom_type g \<noteq> ''path'' \<longrightarrow>
      getLabelId str g d = getElementId g d)"
  by (simp add: getLabelId_def Let_def)

theorem getLabelId_by_kind_witness:
  "getLabelId ToString line_geometry (row (JSString ''1991'') (JSNumber 3) (JSString ''Lon'')) = ''line-Lon 1991''
   \<and> getLabelId ToString (line_geometry\<lparr>geom_type := ''area''\<rparr>) (row (JSString ''1991'') (JSNumber 3) (JSString ''Lon'')) = ''line-Lon 1991''
   \<and> getLabelId ToString (line_geometry\<lparr>geom_type := ''path''\<rparr>) (row (JSString ''1991'') (JSNumber 3) (JSString ''Lon'')) = ''line-Lon 1991-3''
   \<and> getLabelId ToString (line_geometry\<lparr>geom_type := ''interval''\<rparr>) (row (JSString ''1991'') (JSNumber 3) (JSString ''Lon'')) = ''line-Lon''"
  using getLabelId_by_kind [of line_geometry ToString "row (JSString ''1991'') (JSNumber 3) (JSString ''Lon'')"]
    getLabelId_by_kind [of "line_geometry\<lparr>geom_type := ''area''\<rparr>" ToString "row (JSString ''1991'') (JSNumber 3) (JSString ''Lon'')"]
    getLabelId_by_kind [of "line_geometry\<lparr>geom_type := ''path''\<rparr>" ToString "row (JSString ''1991'') (JSNumber 3) (JSString ''Lon'')"]
    getLabelId_by_kind [of "line_geometry\<lparr>geom_type := ''interval''\<rparr>" ToString "row (JSString ''1991'') (JSNumber 3) (JSString ''Lon'')"]
  by (simp add: line_geometry_def row_def ToString_def record_get_def decimal.simps)


section \<open>Passes that degrade: missing shapes, destroyed labels, absent specs\<close>

text \<open>
  Claim C7.  When the lookup by identity finds no shape for an identity of the current map,
  the pass issues no animation call for that identity, and the identity is no longer in the
  outstanding previous map when the first loop is over, whether the previous map held it or
  not, so that the second loop does not treat it as leaving: no transient shape with that
  identity is added to the group.
\<close>

theorem missing_shape_skips_animation:
  assumes "distinct (map fst (labelsCfgMap this))"
    and "distinct (map fst (lastLabelsCfgMap this))"
    and "record_get (labelsCfgMap this) i = Some attrs'"
    and "findById g i = None"
  shows "calls_for i (snd (snd (reconcile env this g))) = []
         \<and> record_get (fst (update_phase env this g)) i = None
         \<and> i \<notin> fst ` set (fst (update_phase env this g))
         \<and> filter (\<lambda>s. cfg_id s = i) (drop (length g) (fst (snd (reconcile env this g)))) = []"
proof -
  have "i \<in> fst ` set (labelsCfgMap this)"
    using assms(3) record_get_None_iff [of "labelsCfgMap this" i] by simp
  then have out: "record_get (fst (update_phase env this g)) i = None"
    by (simp add: outstanding_get)
  have added: "filter (\<lambda>s. cfg_id s = i) (drop (length g) (fst (snd (reconcile env this g)))) = []"
    by (simp add: reconcile_added transient_shapes_for filter_key_none [OF out]
        split: option.splits)
  show ?thesis
    using out added
    by (simp add: reconcile_calls [OF assms(1,2)] assms(3) step_missing [OF assms(4)]
        record_get_None_iff [symmetric])
qed

theorem missing_shape_skips_animation_witness:
  "record_get (lastLabelsCfgMap drawn_this) ''line-Lon 1991'' = Some [(''x'', JSNumber 10)]
   \<and> record_get (labelsCfgMap drawn_this) ''line-Lon 1991'' = Some [(''x'', JSNumber 20)]
   \<and> findById detached_group ''line-Lon 1991'' = None
   \<and> update (getDefaultAnimateCfg detaching_env ''label'' (coord drawn_this)) = Some ''position-update''
   \<and> leave (getDefaultAnimateCfg detaching_env ''label'' (coord drawn_this)) = Some ''fade-out''
   \<and> calls_for ''line-Lon 1991'' (snd (snd (reconcile detaching_env drawn_this detached_group))) = []
   \<and> record_get (fst (update_phase detaching_env drawn_this detached_group)) ''line-Lon 1991'' = None
   \<and> ''line-Lon 1991'' \<notin> fst ` set (fst (update_phase detaching_env drawn_this detached_group))
   \<and> filter (\<lambda>s. cfg_id s = ''line-Lon 1991'')
       (drop (length detached_group)
          (fst (snd (reconcile detaching_env drawn_this detached_group)))) = []"
proof -
  have h: "distinct (map fst (labelsCfgMap drawn_this))"
    "distinct (map fst (lastLabelsCfgMap drawn_this))"
    "record_get (labelsCfgMap drawn_this) ''line-Lon 1991'' = Some [(''x'', JSNumber 20)]"
    by (simp_all add: example_defs record_get_def)
  have previous: "record_get (lastLabelsCfgMap drawn_this) ''line-Lon 1991'' = Some [(''x'', JSNumber 10)]"
    by (simp add: example_defs record_get_def)
  have cfgs: "update (getDefaultAnimateCfg detaching_env ''label'' (coord drawn_this)) = Some ''position-update''"
    "leave (getDefaultAnimateCfg detaching_env ''label'' (coord drawn_this)) = Some ''fade-out''"
    by (simp_all add: detaching_env_def example_env_def example_cfgs_def)
  show ?thesis
    using missing_shape_skips_animation [OF h findById_detached(1), of detaching_env]
      previous h(3) findById_detached(1) cfgs
    by simp
qed

text \<open>
  Claim C8.  A label shape of the pass that reports itself destroyed after adjustment is
  skipped without an error: the loop step that handles it leaves the component, and so the
  label list and the snapshot map, as they were; when the pass is over the shape is not on
  the label list, every identity of the snapshot map is the identity of a listed label other
  than this shape, and no animation call of the pass has this shape as its target.  The pass
  completes whatever \<open>adjustLabel\<close> does to the labels.
\<close>

theorem destroyed_label_is_skipped:
  assumes "renderInner env this g0 = Inr result"
    and "length g0 \<le> a" and "a < length (fst (snd result))"
    and "destroyed (fst (snd result) ! a)"
  shows "a \<notin> set (labels (fst result))
         \<and> list_all (\<lambda>entry. list_ex (\<lambda>b. b \<noteq> a \<and> cfg_id (fst (snd result) ! b) = fst entry)
                                  (labels (fst result)))
             (labelsCfgMap (fst result))
         \<and> list_all (\<lambda>call. shape call \<noteq> a) (snd (snd result))
         \<and> (label < length g \<and> destroyed (adjustLabel env (g ! label) element idx) \<longrightarrow>
              fst (adjust_and_keep env element idx label (c, g)) = c)
         \<and> (\<exists>result'. renderInner (env\<lparr>adjustLabel := f\<rparr>) this g0 = Inr result')"
proof -
  from assms(1) obtain c1 g1 where drawn: "drawLabels env this g0 = Inr (c1, g1)"
    and result: "result = reconcile env c1 g1"
    by (rule renderInner_split)
  note I = draw_invD [OF drawLabels_inv(1) [OF drawn]]
  let ?g = "fst (snd (reconcile env c1 g1))"
  have a1: "a < length g1"
  proof (rule ccontr)
    assume "\<not> a < length g1"
    then have "\<not> destroyed (?g ! a)"
      using assms(3) by (intro reconcile_new_shape) (simp_all add: result)
    with assms(4) show False by (simp add: result)
  qed
  then have dead: "destroyed (g1 ! a)"
    using assms(4) by (simp add: result reconcile_old_shape)
  have labels': "labels (fst result) = labels c1" and map': "labelsCfgMap (fst result) = labelsCfgMap c1"
    by (simp_all add: result reconcile_this)
  have not_listed: "a \<notin> set (labels c1)"
    using I(4) [of a] dead by blast
  have keys: "list_ex (\<lambda>b. b \<noteq> a \<and> cfg_id (?g ! b) = fst entry) (labels c1)"
    if "entry \<in> set (labelsCfgMap c1)" for entry
  proof -
    from that I(1) have "record_get (labelsCfgMap c1) (fst entry) = Some (snd entry)"
      by (simp add: record_get_def)
    from I(5) [OF this] obtain b where b: "b \<in> set (labels c1)" "cfg_id (g1 ! b) = fst entry"
      by blast
    from I(4) [OF b(1)] have "b < length g1" by simp
    with b not_listed have "b \<noteq> a \<and> cfg_id (?g ! b) = fst entry"
      by (auto simp: reconcile_old_shape)
    with b(1) show ?thesis unfolding list_ex_iff by blast
  qed
  have targets: "shape call \<noteq> a" if "call \<in> set (snd (snd (reconcile env c1 g1)))" for call
    using reconcile_calls_target [OF that] a1 dead by (auto simp: is_live_def)
  have step: "fst (adjust_and_keep env element idx label (c, g)) = c"
    if "label < length g" "destroyed (adjustLabel env (g ! label) element idx)"
    using that by (simp add: adjust_and_keep_def Let_def)
  have "aligned env 0 (elements (geometry this))"
    using assms(1) renderInner_succeeds_iff [of env this g0] by blast
  then have "aligned (env\<lparr>adjustLabel := f\<rparr>) 0 (elements (geometry this))"
    by (simp add: aligned_adjustLabel)
  then have total: "\<exists>result'. renderInner (env\<lparr>adjustLabel := f\<rparr>) this g0 = Inr result'"
    using renderInner_succeeds_iff [of "env\<lparr>adjustLabel := f\<rparr>" this g0] by blast
  from not_listed keys targets step total show ?thesis
    unfolding labels' map' list_all_iff by (simp add: result)
qed

theorem destroyed_label_is_skipped_witness:
  "\<exists>result. renderInner destroying_env example_this [] = Inr result
     \<and> length ([] :: JSValue IGroup) \<le> 1 \<and> 1 < length (fst (snd result))
     \<and> destroyed (fst (snd result) ! 1)
     \<and> 1 \<notin> set (labels (fst result))
     \<and> list_all (\<lambda>entry. list_ex (\<lambda>b. b \<noteq> 1 \<and> cfg_id (fst (snd result) ! b) = fst entry)
                              (labels (fst result)))
         (labelsCfgMap (fst result))
     \<and> list_all (\<lambda>call. shape call \<noteq> 1) (snd (snd result))
     \<and> (\<exists>result'. renderInner (destroying_env\<lparr>adjustLabel := adjustLabel example_env\<rparr>)
                     example_this [] = Inr result')"
proof -
  let ?result = "(example_this\<lparr>labels := [0],
            labelsCfgMap := [(''line-Lon 1991'', [(''x'', JSNumber 20)])],
            lastLabelsCfgMap := [(''line-Lon 1991'', [(''x'', JSNumber 20)])]\<rparr>,
          [new_shape ''text'' [(''x'', JSNumber 10)] ''line-Lon 1991'' ''label'' (Some row_1991),
           (new_shape ''text'' [(''x'', JSNumber 30)] ''line-Lon 1992'' ''label'' (Some row_1992))
             \<lparr>has_parent := False, destroyed := True\<rparr>,
           new_shape ''text'' [(''x'', JSNumber 5)] ''line-Lon 1990'' ''label'' None],
          [\<lparr>shape = 0,
            shape_state = new_shape ''text'' [(''x'', JSNumber 10)] ''line-Lon 1991'' ''label'' (Some row_1991),
            animateCfg = ''position-update'', toAttrs = Some [(''x'', JSNumber 20)], coordinate = ()\<rparr>,
           \<lparr>shape = 2,
            shape_state = new_shape ''text'' [(''x'', JSNumber 5)] ''line-Lon 1990'' ''label'' None,
            animateCfg = ''fade-out'', toAttrs = None, coordinate = ()\<rparr>])"
  have h: "length ([] :: JSValue IGroup) \<le> 1" "1 < length (fst (snd ?result))"
    "destroyed (fst (snd ?result) ! 1)"
    by simp_all
  from destroyed_label_is_skipped [OF destroying_run h, of 1 drawn_group
      "\<lparr>mappingData = Many [row_1991, row_1992]\<rparr>" 1 drawn_this "adjustLabel example_env"]
  show ?thesis
    using destroying_run h by (intro exI [of _ ?result]) simp
qed

lemma absent_update_or_leave_spec:
  assumes "renderInner env this g0 = Inr result"
    and "distinct (map fst (lastLabelsCfgMap this))"
  shows "(get_cfg (resolve_animateCfg env this) update = None
            \<and> record_get (lastLabelsCfgMap this) i = Some oldAttrs
            \<and> record_get (labelsCfgMap (fst result)) i = Some attrs'
          \<longrightarrow> calls_for i (snd (snd result)) = []
              \<and> list_ex (\<lambda>a. cfg_id (fst (snd result) ! a) = i \<and> attrs (fst (snd result) ! a) = attrs'
                             \<and> destroyed (fst (snd result) ! a) = False)
                  (labels (fst result)))
       \<and> (get_cfg (resolve_animateCfg env this) leave = None
            \<and> record_get (lastLabelsCfgMap this) i = Some oldAttrs
            \<and> record_get (labelsCfgMap (fst result)) i = None
          \<longrightarrow> calls_for i (snd (snd result)) = []
              \<and> (\<exists>drawn. drawLabels env this g0 = Inr drawn
                    \<and> length (fst (snd result)) = length (snd drawn)))"
proof -
  from assms(1) obtain c1 g1 where drawn: "drawLabels env this g0 = Inr (c1, g1)"
    and result: "result = reconcile env c1 g1"
    by (rule renderInner_split)
  note I = draw_invD [OF drawLabels_inv(1) [OF drawn]]
  note F = drawLabels_inv(2-4) [OF drawn, simplified]
  have cfg: "resolve_animateCfg env c1 = resolve_animateCfg env this"
    by (simp add: resolve_animateCfg_def F)
  have last: "distinct (map fst (lastLabelsCfgMap c1))" using assms(2) by (simp add: F)
  have cur: "labelsCfgMap (fst result) = labelsCfgMap c1" and lab: "labels (fst result) = labels c1"
    by (simp_all add: result reconcile_this)
  note calls = reconcile_calls [OF I(1) last, of i env g1, unfolded cfg F]
  let ?g = "fst (snd (reconcile env c1 g1))"
  have upd: "calls_for i (snd (snd result)) = []
        \<and> list_ex (\<lambda>a. cfg_id (fst (snd result) ! a) = i \<and> attrs (fst (snd result) ! a) = attrs'
                       \<and> destroyed (fst (snd result) ! a) = False)
            (labels (fst result))"
    if off: "get_cfg (resolve_animateCfg env this) update = None"
      and old: "record_get (lastLabelsCfgMap this) i = Some oldAttrs"
      and new: "record_get (labelsCfgMap c1) i = Some attrs'"
  proof -
    have none: "calls_for i (snd (snd result)) = []"
      unfolding result calls by (simp add: new step_update_off [OF old off])
    from I(5) [OF new] obtain a where a: "a \<in> set (labels c1)" "cfg_id (g1 ! a) = i" "attrs (g1 ! a) = attrs'"
      by blast
    from I(4) [OF a(1)] have a': "a < length g1" "\<not> destroyed (g1 ! a)" by simp_all
    have "?g ! a = g1 ! a"
      using a'(1) off by (simp add: reconcile_nth update_phase_def cfg loop1_group_off)
    with a a' have "cfg_id (?g ! a) = i \<and> attrs (?g ! a) = attrs' \<and> destroyed (?g ! a) = False"
      by simp
    with a(1) none show ?thesis
      by (auto simp: list_ex_iff result reconcile_this)
  qed
  have lv: "calls_for i (snd (snd result)) = []
        \<and> (\<exists>drawn. drawLabels env this g0 = Inr drawn
              \<and> length (fst (snd result)) = length (snd drawn))"
    if off: "get_cfg (resolve_animateCfg env this) leave = None"
      and new: "record_get (labelsCfgMap c1) i = None"
  proof -
    have none: "calls_for i (snd (snd result)) = []"
      unfolding result calls by (simp add: new off)
    have len: "length ?g = length g1"
      by (simp add: reconcile_length cfg off)
    from none len drawn show ?thesis
      by (simp add: result)
  qed
  from upd lv show ?thesis unfolding cur by blast
qed

text \<open>
  Claim C9.  A phase whose transition spec is absent issues no animation call for the
  identities of that phase, and the state of the scene at the end of the pass is the one of
  the current pass all the same.

  The pass does so for the update and the leave phase (\<open>absent_update_or_leave_spec\<close>).  For
  the appear phase it does so when the read \<open>lastLabelsCfgMap[id]\<close> gives a falsy value; the
  read goes through the prototype of the previous map and is tested for truthiness, so an
  identity of the current map only that names a member of \<open>Object.prototype\<close> is handled by
  the update branch.  In the first pass of a bar chart whose one category is \<open>constructor\<close>,
  with an update spec and no appear spec configured, the identity \<open>constructor\<close> is in the
  current map only and the pass issues an animation call for it.
\<close>

theorem absent_appear_spec_still_animates:
  "lastLabelsCfgMap bar_this = []
   \<and> animateOption (geometry bar_this)
   \<and> appear (getDefaultAnimateCfg no_appear_env ''label'' (coord bar_this)) = None
   \<and> renderInner no_appear_env bar_this [] =
       Inr (bar_this\<lparr>labels := [0],
              labelsCfgMap := [(''constructor'', [(''x'', JSNumber 20)])],
              lastLabelsCfgMap := [(''constructor'', [(''x'', JSNumber 20)])]\<rparr>,
            [new_shape ''text'' [(''x'', JSNumber 20)] ''constructor'' ''label''
               (Some (row (JSString ''constructor'') (JSNumber 3) (JSString ''Lon'')))],
            [\<lparr>shape = 0,
              shape_state = new_shape ''text'' [(''x'', JSNumber 20)] ''constructor'' ''label''
                (Some (row (JSString ''constructor'') (JSNumber 3) (JSString ''Lon''))),
              animateCfg = ''position-update'', toAttrs = Some [(''x'', JSNumber 20)],
              coordinate = ()\<rparr>])"
  using no_appear_run
  by (simp add: no_appear_env_def bar_this_def bar_env_def bar_geometry_def example_env_def)


section \<open>The label registry: registration and lookup\<close>

lemma registry_lookup_plain:
  assumes "''__proto__'' \<notin> fst ` set calls"
  shows "getLabelComponent static_member (registered calls) t =
           (case map_of (rev calls) t of
              Some c \<Rightarrow> Value c
            | None \<Rightarrow> if t \<in> set object_prototype_names then Builtin else Undefined)"
proof -
  note reg = registered_plain [OF assms, of "([], None)" t, folded registered_def]
  show ?thesis
  proof (cases "t \<in> fst ` set calls")
    case True
    then obtain c where c: "map_of (rev calls) t = Some c"
      by (cases "map_of (rev calls) t") (simp_all add: map_of_eq_None_iff)
    with True reg show ?thesis
      by (simp add: getLabelComponent_def obj_get_own)
  next
    case False
    then have none: "map_of (rev calls) t = None"
      by (simp add: map_of_eq_None_iff)
    from False reg have "record_get (fst (registered calls)) t = None" "snd (registered calls) = None"
      by (simp_all add: record_get_def)
    then show ?thesis
      by (simp add: getLabelComponent_def obj_get_plain none)
  qed
qed

lemma registry_lookup_last:
  "''__proto__'' \<notin> fst ` set calls \<Longrightarrow> t \<noteq> ''__proto__'' \<Longrightarrow>
   getLabelComponent static_member (registered (calls @ [(t, c)])) t = Value c"
  using registry_lookup_plain [of "calls @ [(t, c)]" static_member t] by simp

text \<open>
  Claim C10.  After \<open>registerLabelComponent(t, c)\<close> a call \<open>getLabelComponent(t)\<close> returns
  \<open>c\<close>, a later registration for the same type replacing the earlier one, and a type that
  was never registered is looked up as \<open>undefined\<close>.

  The registry does so for every type that is not the name of a member of
  \<open>Object.prototype\<close> (\<open>registry_lookup_plain\<close>).  The registry is a plain object, though, and
  the lookup reads through its prototype: with the types \<open>point\<close> and \<open>line\<close> registered,
  and \<open>constructor\<close> never registered, \<open>getLabelComponent('constructor')\<close> is not
  \<open>undefined\<close> but the function \<open>Object\<close>, which is no label component.
\<close>

theorem unregistered_prototype_name_is_found:
  "''constructor'' \<notin> fst ` set [(''point'', 1 :: nat), (''line'', 2)]
   \<and> getLabelComponent (\<lambda>c k. None :: unit option) (registered [(''point'', 1 :: nat), (''line'', 2)])
       ''constructor'' = Builtin
   \<and> getLabelComponent (\<lambda>c k. None :: unit option) (registered ([] :: (string \<times> nat) list))
       ''constructor'' = Builtin"
  by (simp add: getLabelComponent_def registered_def registerLabelComponent_def obj_assign_def
      obj_get_def record_set_def record_get_def key_precedes_def is_array_index_def is_digit_def
      object_prototype_names_def)

end
